theory Spec2Isabelle
  imports Complex_Main "HOL-Library.Word"
begin

section \<open>The program representation built by the code generator\<close>

text \<open>
  The compiler keeps its whole state in file-level variables of \<^verbatim>\<open>main.cpp\<close>. The
  model threads one record of them through every function. The part of the state that
  lives in the IR library (the module with its functions, blocks and instructions) is
  represented by the datatypes below. A pointer to a library object is a natural number,
  handed out by a counter so that two objects never share one. A value is a constant of
  the 32-bit or the 1-bit integer type, the \<open>i\<close>-th argument of a function, or the
  result of an instruction; every argument has the 32-bit type. A function has a name,
  the names of its arguments, and its basic blocks in order, each a list of instructions
  with their addresses. Of the error stream the model keeps the messages written by
  \<^verbatim>\<open>LogError\<close> only, not the prompts and the listings of generated functions.
\<close>

datatype lltype = I1 | I32 | Void

datatype llvalue =
    ConstantInt32 "32 word"
  | ConstantInt1 bool
  | Argument nat nat
  | InstructionV nat lltype

fun type_of :: "llvalue \<Rightarrow> lltype" where
  "type_of (ConstantInt32 w) = I32"
| "type_of (ConstantInt1 b) = I1"
| "type_of (Argument f i) = I32"
| "type_of (InstructionV a ty) = ty"

datatype instr =
    Add llvalue llvalue
  | Sub llvalue llvalue
  | Mul llvalue llvalue
  | ICmpULT llvalue llvalue
  | ZExt llvalue
  | Call nat "llvalue list"
  | Ret llvalue

record llfunction =
  fn_id :: nat
  fn_name :: string
  fn_args :: "string list"
  fn_blocks :: "(nat \<times> instr) list list"

text \<open>
  A \<^verbatim>\<open>double\<close> of the program is the result of \<^verbatim>\<open>strtod\<close> on a string of digits and
  dots, or the zero the variable \<^verbatim>\<open>numVal\<close> starts with: a finite value that is not
  negative, kept as the rational number it stands for, or the positive infinity that
  \<^verbatim>\<open>strtod\<close> returns for a number too large. No negative value and no NaN arises.
\<close>

datatype double = Finite rat | PlusInfinity

record globals =
  stdin :: "char list"
  nextChar :: int
  identifierStr :: string
  numVal :: double
  CurTok :: int
  BinopPrecedence :: "char \<rightharpoonup> int"
  stderr :: "string list"
  TheModule :: "llfunction list"
  ModuleLastUnique :: nat
  NextAddr :: nat
  InsertPoint :: "(nat \<times> nat) option"
  NamedValues :: "string \<rightharpoonup> llvalue"

section \<open>Lexer\<close>

definition tok_eof :: int where "tok_eof = -1"
definition tok_def :: int where "tok_def = -2"
definition tok_extern :: int where "tok_extern = -3"
definition tok_indentifier :: int where "tok_indentifier = -4"
definition tok_number :: int where "tok_number = -5"

definition EOF :: int where "EOF = -1"

text \<open>The character classes of \<^verbatim>\<open><cctype>\<close> in the C locale, on the \<^verbatim>\<open>int\<close> that
  \<^verbatim>\<open>getchar\<close> returns (a byte 0..255, or \<^verbatim>\<open>EOF\<close>).\<close>

definition isspace :: "int \<Rightarrow> bool" where
  "isspace c \<longleftrightarrow> c = 32 \<or> (9 \<le> c \<and> c \<le> 13)"

definition isdigit :: "int \<Rightarrow> bool" where
  "isdigit c \<longleftrightarrow> 48 \<le> c \<and> c \<le> 57"

definition isalpha :: "int \<Rightarrow> bool" where
  "isalpha c \<longleftrightarrow> (65 \<le> c \<and> c \<le> 90) \<or> (97 \<le> c \<and> c \<le> 122)"

definition isalnum :: "int \<Rightarrow> bool" where
  "isalnum c \<longleftrightarrow> isalpha c \<or> isdigit c"

definition isascii :: "int \<Rightarrow> bool" where
  "isascii c \<longleftrightarrow> 0 \<le> c \<and> c \<le> 127"

text \<open>\<^verbatim>\<open>nextChar = getchar()\<close>: the next byte of standard input, or \<^verbatim>\<open>EOF\<close> for good
  once the input is used up.\<close>

definition getchar :: "globals \<Rightarrow> globals" where
  "getchar g =
     (case stdin g of
        [] \<Rightarrow> g\<lparr>nextChar := EOF\<rparr>
      | c # cs \<Rightarrow> g\<lparr>stdin := cs, nextChar := of_char c\<rparr>)"

text \<open>What is left to read: the unread input, and the one character of lookahead
  unless it is \<^verbatim>\<open>EOF\<close>.\<close>

definition unread :: "globals \<Rightarrow> nat" where
  "unread g = length (stdin g) + (if nextChar g = EOF then 0 else 1)"

lemma isspace_not_EOF: "isspace c \<Longrightarrow> c \<noteq> EOF"
  by (auto simp: isspace_def EOF_def)

lemma unread_getchar: "nextChar g \<noteq> EOF \<Longrightarrow> unread (getchar g) < unread g"
  by (simp add: unread_def getchar_def split: list.splits)

lemma stdin_getchar_le: "length (stdin (getchar g)) \<le> length (stdin g)"
  by (simp add: getchar_def split: list.splits)

text \<open>\<^verbatim>\<open>while(isspace(nextChar)) nextChar = getchar();\<close>\<close>

function skip_whitespace :: "globals \<Rightarrow> globals" where
  "skip_whitespace g = (if isspace (nextChar g) then skip_whitespace (getchar g) else g)"
  by pat_completeness auto
termination
  by (relation "measure unread") (auto simp: unread_getchar isspace_not_EOF)

declare skip_whitespace.simps [simp del]

text \<open>\<^verbatim>\<open>while(isalnum(nextChar = getchar())) identifierStr += nextChar;\<close>\<close>

function read_identifier :: "globals \<Rightarrow> globals" where
  "read_identifier g =
     (let g' = getchar g in
      if isalnum (nextChar g')
      then read_identifier (g'\<lparr>identifierStr := identifierStr g' @ [char_of (nextChar g')]\<rparr>)
      else g')"
  by pat_completeness auto
termination
proof (relation "measure (\<lambda>g. length (stdin g))")
  show "wf (measure (\<lambda>g. length (stdin g)))" by simp
next
  fix g g' :: globals
  assume g': "g' = getchar g" and al: "isalnum (nextChar g')"
  have "nextChar g' \<noteq> EOF"
    using al by (auto simp: isalnum_def isalpha_def isdigit_def EOF_def)
  then have "length (stdin g') < length (stdin g)"
    unfolding g' by (simp add: getchar_def split: list.splits)
  then show "(g'\<lparr>identifierStr := identifierStr g' @ [char_of (nextChar g')]\<rparr>, g)
      \<in> measure (\<lambda>g. length (stdin g))"
    by simp
qed

declare read_identifier.simps [simp del]

text \<open>\<^verbatim>\<open>do { numStr += nextChar; nextChar = getchar(); }
  while(isdigit(nextChar) || nextChar == '.');\<close>\<close>

function read_number :: "string \<Rightarrow> globals \<Rightarrow> string \<times> globals" where
  "read_number numStr g =
     (let numStr' = numStr @ [char_of (nextChar g)];
          g' = getchar g in
      if isdigit (nextChar g') \<or> nextChar g' = of_char CHR ''.''
      then read_number numStr' g'
      else (numStr', g'))"
  by pat_completeness auto
termination
proof (relation "measure (\<lambda>(numStr, g). length (stdin g))")
  show "wf (measure (\<lambda>(numStr :: string, g). length (stdin g)))" by simp
next
  fix numStr numStr' :: string and g g' :: globals
  assume g': "g' = getchar g"
    and dg: "isdigit (nextChar g') \<or> nextChar g' = of_char CHR ''.''"
  have "nextChar g' \<noteq> EOF"
    using dg by (auto simp: isdigit_def EOF_def)
  then have "length (stdin g') < length (stdin g)"
    unfolding g' by (simp add: getchar_def split: list.splits)
  then show "((numStr', g'), (numStr, g)) \<in> measure (\<lambda>(numStr, g). length (stdin g))"
    by simp
qed

declare read_number.simps [simp del]

text \<open>
  \<^verbatim>\<open>strtod(numStr.c_str(), 0)\<close> on a string of digits and dots: the C library converts
  the longest prefix of the form digits, optional dot, digits (with a digit somewhere)
  and yields zero when there is none. The result is the double nearest to the decimal
  value of that prefix, the one with the even significand when two are equally near,
  and positive infinity when the nearest value would exceed the largest double.

  A double has a significand of 53 bits: its value is \<open>m * 2 ^ k\<close> with \<open>m < 2 ^ 53\<close>
  and \<open>- 1074 \<le> k \<le> 971\<close>. For a positive number \<open>a / b\<close> with
  \<open>2 ^ e \<le> a / b < 2 ^ (e + 1)\<close> the neighbouring doubles are \<open>2 ^ (e - 52)\<close> apart,
  for \<open>e\<close> from \<open>- 1022\<close> on, and \<open>2 ^ (- 1074)\<close> apart below that.
  \<open>bit_length n\<close> is the number of binary digits of \<open>n\<close>; \<open>binade a b\<close> is that
  exponent \<open>e\<close>; \<open>round_half_even a b\<close> is the integer nearest to \<open>a / b\<close>, the even
  one of two.
\<close>

function bit_length :: "int \<Rightarrow> nat" where
  "bit_length n = (if n \<le> 0 then 0 else Suc (bit_length (n div 2)))"
  by pat_completeness auto
termination
  by (relation "measure nat") auto

declare bit_length.simps [simp del]

definition binade :: "int \<Rightarrow> int \<Rightarrow> int" where
  "binade a b =
     (let d = int (bit_length a) - int (bit_length b)
      in if b * 2 ^ nat d \<le> a * 2 ^ nat (- d) then d else d - 1)"

definition round_half_even :: "int \<Rightarrow> int \<Rightarrow> int" where
  "round_half_even a b =
     (let q = a div b; r = a mod b
      in if 2 * r < b \<or> (2 * r = b \<and> even q) then q else q + 1)"

definition nearest_double :: "int \<Rightarrow> int \<Rightarrow> double" where
  "nearest_double a b =
     (if a = 0 then Finite 0
      else
        (let e = binade a b in
         if 1024 \<le> e then PlusInfinity
         else
           (let k = max e (- 1022) - 52;
                m = round_half_even (a * 2 ^ nat (- k)) (b * 2 ^ nat k)
            in if k = 971 \<and> m = 2 ^ 53 then PlusInfinity
               else Finite (of_int m * 2 ^ nat k / 2 ^ nat (- k)))))"

definition digit_char :: "char \<Rightarrow> bool" where
  "digit_char c \<longleftrightarrow> isdigit (of_char c)"

definition digits_value :: "string \<Rightarrow> int" where
  "digits_value ds = foldl (\<lambda>a c. 10 * a + (of_char c - 48)) 0 ds"

definition strtod :: "string \<Rightarrow> double" where
  "strtod s =
     (let ip = takeWhile digit_char s;
          rest = dropWhile digit_char s;
          fp = (case rest of
                  [] \<Rightarrow> []
                | c # r \<Rightarrow> if c = CHR ''.'' then takeWhile digit_char r else [])
      in if ip = [] \<and> fp = [] then Finite 0
         else nearest_double (digits_value (ip @ fp)) (10 ^ length fp))"

text \<open>\<^verbatim>\<open>getok\<close>: the next token, with its text or value left in
  \<^verbatim>\<open>identifierStr\<close> or \<^verbatim>\<open>numVal\<close>.\<close>

definition getok :: "globals \<Rightarrow> int \<times> globals" where
  "getok g0 =
     (let g = skip_whitespace g0 in
      if isalpha (nextChar g) then
        (let g = read_identifier (g\<lparr>identifierStr := [char_of (nextChar g)]\<rparr>) in
         if identifierStr g = ''def'' then (tok_def, g)
         else if identifierStr g = ''extern'' then (tok_extern, g)
         else (tok_indentifier, g))
      else if isdigit (nextChar g) \<or> nextChar g = of_char CHR ''.'' then
        (let (numStr, g) = read_number [] g in
         (tok_number, g\<lparr>numVal := strtod numStr\<rparr>))
      else if nextChar g = EOF then (tok_eof, g)
      else (nextChar g, getchar g))"

lemma unread_skip_whitespace: "unread (skip_whitespace g) \<le> unread g"
proof (induction g rule: skip_whitespace.induct)
  case (1 g)
  show ?case
  proof (cases "isspace (nextChar g)")
    case True
    then have "unread (getchar g) < unread g"
      by (simp add: unread_getchar isspace_not_EOF)
    with 1 True show ?thesis
      by (subst skip_whitespace.simps) simp
  next
    case False
    then show ?thesis by (subst skip_whitespace.simps) simp
  qed
qed

lemma unread_getchar_le: "unread (getchar g) \<le> unread g"
  by (simp add: unread_def getchar_def split: list.splits)

lemma unread_read_identifier: "unread (read_identifier g) \<le> unread (getchar g)"
proof (induction g rule: read_identifier.induct)
  case (1 g)
  show ?case
  proof (cases "isalnum (nextChar (getchar g))")
    case True
    let ?g1 = "(getchar g)\<lparr>identifierStr :=
        identifierStr (getchar g) @ [char_of (nextChar (getchar g))]\<rparr>"
    have "unread (read_identifier ?g1) \<le> unread (getchar ?g1)"
      using 1 True by simp
    also have "\<dots> \<le> unread ?g1" by (rule unread_getchar_le)
    also have "\<dots> = unread (getchar g)" by (simp add: unread_def)
    finally show ?thesis
      using True by (subst read_identifier.simps) (simp add: Let_def)
  next
    case False
    then show ?thesis by (subst read_identifier.simps) (simp add: Let_def)
  qed
qed

lemma unread_read_number: "unread (snd (read_number numStr g)) \<le> unread (getchar g)"
proof (induction numStr g rule: read_number.induct)
  case (1 numStr g)
  show ?case
  proof (cases "isdigit (nextChar (getchar g)) \<or> nextChar (getchar g) = of_char CHR ''.''")
    case True
    have "unread (snd (read_number (numStr @ [char_of (nextChar g)]) (getchar g)))
        \<le> unread (getchar (getchar g))"
      using 1 True by simp
    also have "\<dots> \<le> unread (getchar g)" by (rule unread_getchar_le)
    finally show ?thesis
      using True by (subst read_number.simps) (simp add: Let_def)
  next
    case False
    then show ?thesis by (subst read_number.simps) (simp add: Let_def)
  qed
qed

text \<open>Every token but the end token uses up input.\<close>

lemma unread_getok:
  assumes "getok g = (t, g')" and "t \<noteq> tok_eof"
  shows "unread g' < unread g"
proof -
  let ?g = "skip_whitespace g"
  have le: "unread ?g \<le> unread g" by (rule unread_skip_whitespace)
  consider (ident) "isalpha (nextChar ?g)"
    | (num) "\<not> isalpha (nextChar ?g)" "isdigit (nextChar ?g) \<or> nextChar ?g = of_char CHR ''.''"
    | (eof) "\<not> isalpha (nextChar ?g)" "\<not> (isdigit (nextChar ?g) \<or> nextChar ?g = of_char CHR ''.'')"
        "nextChar ?g = EOF"
    | (other) "\<not> isalpha (nextChar ?g)" "\<not> (isdigit (nextChar ?g) \<or> nextChar ?g = of_char CHR ''.'')"
        "nextChar ?g \<noteq> EOF"
    by blast
  then show ?thesis
  proof cases
    case ident
    let ?h = "?g\<lparr>identifierStr := [char_of (nextChar ?g)]\<rparr>"
    have ne: "nextChar ?h \<noteq> EOF"
      using ident by (auto simp: isalpha_def EOF_def)
    have "g' = read_identifier ?h"
      using assms(1) ident by (auto simp: getok_def Let_def split: if_splits)
    then have "unread g' \<le> unread (getchar ?h)"
      by (simp add: unread_read_identifier)
    also have "\<dots> < unread ?h" using ne by (rule unread_getchar)
    also have "\<dots> = unread ?g" by (simp add: unread_def)
    finally show ?thesis using le by simp
  next
    case num
    have ne: "nextChar ?g \<noteq> EOF"
      using num by (auto simp: isdigit_def EOF_def)
    obtain numStr h where rn: "read_number [] ?g = (numStr, h)"
      by (cases "read_number [] ?g")
    have "g' = h\<lparr>numVal := strtod numStr\<rparr>"
      using assms(1) num rn by (auto simp: getok_def Let_def)
    then have "unread g' = unread (snd (read_number [] ?g))"
      using rn by (simp add: unread_def)
    also have "\<dots> \<le> unread (getchar ?g)" by (rule unread_read_number)
    also have "\<dots> < unread ?g" using ne by (rule unread_getchar)
    finally show ?thesis using le by simp
  next
    case eof
    then have "t = tok_eof"
      using assms(1) by (auto simp: getok_def Let_def)
    with assms(2) show ?thesis by simp
  next
    case other
    then have "g' = getchar ?g"
      using assms(1) by (auto simp: getok_def Let_def)
    then have "unread g' < unread ?g"
      using other(3) by (simp add: unread_getchar)
    then show ?thesis using le by simp
  qed
qed

section \<open>Abstract syntax tree\<close>

datatype ExprAST =
    NumberExprAST double
  | VariableExprAST string
  | BinaryExprAST char ExprAST ExprAST
  | CallExprAST string "ExprAST list"

datatype PrototypeAST = PrototypeAST string "string list"

fun getName :: "PrototypeAST \<Rightarrow> string" where
  "getName (PrototypeAST Name Args) = Name"

fun getArgs :: "PrototypeAST \<Rightarrow> string list" where
  "getArgs (PrototypeAST Name Args) = Args"

datatype FunctionAST = FunctionAST PrototypeAST ExprAST

section \<open>Parser\<close>

definition getNextToken :: "globals \<Rightarrow> globals" where
  "getNextToken g = (let (t, g') = getok g in g'\<lparr>CurTok := t\<rparr>)"

text \<open>
  \<^verbatim>\<open>BinopPrecedence[CurTok]\<close> reads a \<^verbatim>\<open>std::map<char, int>\<close> with
  \<^verbatim>\<open>operator[]\<close>, which yields 0 for a key that is not there (and enters the key with
  that 0, which no later read can tell from the key being absent: the model leaves the
  map as it is).
\<close>

definition GetTokPrecedence :: "globals \<Rightarrow> int" where
  "GetTokPrecedence g =
     (if \<not> isascii (CurTok g) then -1
      else
        (let TokPrec = (case BinopPrecedence g (char_of (CurTok g)) of
                          None \<Rightarrow> 0
                        | Some p \<Rightarrow> p)
         in if TokPrec \<le> 0 then -1 else TokPrec))"

text \<open>\<^verbatim>\<open>LogError\<close> writes the line \<^verbatim>\<open>Error: Str\<close> to the error stream; the model keeps
  the messages, in the order written. The caller returns the null pointer.\<close>

definition LogError :: "string \<Rightarrow> globals \<Rightarrow> globals" where
  "LogError Str g = g\<lparr>stderr := stderr g @ [Str]\<rparr>"

definition ParseNumberExpr :: "globals \<Rightarrow> ExprAST option \<times> globals" where
  "ParseNumberExpr g = (Some (NumberExprAST (numVal g)), getNextToken g)"

text \<open>
  The expression parser is recursive through the token stream. Each function takes a
  bound on the depth of calls still allowed and answers \<open>None\<close> when the bound is used
  up; otherwise it answers the pointer the source function returns (\<open>None\<close> for the
  null pointer) and the state it leaves. \<open>ParseCallArgs\<close> is the \<^verbatim>\<open>while(true)\<close> loop
  of \<^verbatim>\<open>ParseIdentifierExpr\<close>, and the tail call of \<open>ParseBinOpRHS\<close> is the next round of
  its \<^verbatim>\<open>while(true)\<close> loop.
\<close>

fun ParseExpression :: "nat \<Rightarrow> globals \<Rightarrow> (ExprAST option \<times> globals) option"
  and ParsePrimary :: "nat \<Rightarrow> globals \<Rightarrow> (ExprAST option \<times> globals) option"
  and ParseParenExpr :: "nat \<Rightarrow> globals \<Rightarrow> (ExprAST option \<times> globals) option"
  and ParseIdentifierExpr :: "nat \<Rightarrow> globals \<Rightarrow> (ExprAST option \<times> globals) option"
  and ParseCallArgs :: "nat \<Rightarrow> ExprAST list \<Rightarrow> globals \<Rightarrow> (ExprAST list option \<times> globals) option"
  and ParseBinOpRHS :: "nat \<Rightarrow> int \<Rightarrow> ExprAST \<Rightarrow> globals \<Rightarrow> (ExprAST option \<times> globals) option"
where
  "ParseExpression 0 g = None"
| "ParseExpression (Suc n) g =
     (case ParsePrimary n g of
        None \<Rightarrow> None
      | Some (None, g1) \<Rightarrow> Some (None, g1)
      | Some (Some LHS, g1) \<Rightarrow> ParseBinOpRHS n 0 LHS g1)"
| "ParsePrimary 0 g = None"
| "ParsePrimary (Suc n) g =
     (if CurTok g = tok_indentifier then ParseIdentifierExpr n g
      else if CurTok g = tok_number then Some (ParseNumberExpr g)
      else if CurTok g = of_char CHR ''('' then ParseParenExpr n g
      else Some (None, LogError ''unknown token when expecting an expression'' g))"
| "ParseParenExpr 0 g = None"
| "ParseParenExpr (Suc n) g =
     (let g1 = getNextToken g in
      case ParseExpression n g1 of
        None \<Rightarrow> None
      | Some (None, g2) \<Rightarrow> Some (None, g2)
      | Some (Some V, g2) \<Rightarrow>
          if CurTok g2 \<noteq> of_char CHR '')''
          then Some (None, LogError (''expected '' @ [CHR 0x27, CHR '')'', CHR 0x27]) g2)
          else Some (Some V, getNextToken g2))"
| "ParseIdentifierExpr 0 g = None"
| "ParseIdentifierExpr (Suc n) g =
     (let IdName = identifierStr g;
          g1 = getNextToken g in
      if CurTok g1 \<noteq> of_char CHR ''(''
      then Some (Some (VariableExprAST IdName), g1)
      else
        (let g2 = getNextToken g1 in
         if CurTok g2 \<noteq> of_char CHR '')'' then
           (case ParseCallArgs n [] g2 of
              None \<Rightarrow> None
            | Some (None, g3) \<Rightarrow> Some (None, g3)
            | Some (Some Args, g3) \<Rightarrow> Some (Some (CallExprAST IdName Args), getNextToken g3))
         else Some (Some (CallExprAST IdName []), getNextToken g2)))"
| "ParseCallArgs 0 Args g = None"
| "ParseCallArgs (Suc n) Args g =
     (case ParseExpression n g of
        None \<Rightarrow> None
      | Some (None, g1) \<Rightarrow> Some (None, g1)
      | Some (Some ArgE, g1) \<Rightarrow>
          if CurTok g1 = of_char CHR '')'' then Some (Some (Args @ [ArgE]), g1)
          else if CurTok g1 \<noteq> of_char CHR '',''
          then Some (None,
            LogError (''Expected '' @ [CHR 0x27, CHR '')'', CHR 0x27] @ '' or ''
              @ [CHR 0x27, CHR '','', CHR 0x27] @ '' in argument list'') g1)
          else ParseCallArgs n (Args @ [ArgE]) (getNextToken g1))"
| "ParseBinOpRHS 0 ExprPrec LHS g = None"
| "ParseBinOpRHS (Suc n) ExprPrec LHS g =
     (let TokPrec = GetTokPrecedence g in
      if TokPrec < ExprPrec then Some (Some LHS, g)
      else
        (let BinOp = CurTok g;
             g1 = getNextToken g in
         case ParsePrimary n g1 of
           None \<Rightarrow> None
         | Some (None, g2) \<Rightarrow> Some (None, g2)
         | Some (Some RHS, g2) \<Rightarrow>
             (let NextPrec = GetTokPrecedence g2 in
              if TokPrec < NextPrec then
                (case ParseBinOpRHS n (TokPrec + 1) RHS g2 of
                   None \<Rightarrow> None
                 | Some (None, g3) \<Rightarrow> Some (None, g3)
                 | Some (Some RHS', g3) \<Rightarrow>
                     ParseBinOpRHS n ExprPrec (BinaryExprAST (char_of BinOp) LHS RHS') g3)
              else ParseBinOpRHS n ExprPrec (BinaryExprAST (char_of BinOp) LHS RHS) g2)))"

text \<open>\<^verbatim>\<open>while(getNextToken() == tok_indentifier) ArgNames.push_back(identifierStr);\<close>\<close>

function ParsePrototypeArgs :: "string list \<Rightarrow> globals \<Rightarrow> string list \<times> globals" where
  "ParsePrototypeArgs ArgNames g =
     (let g' = getNextToken g in
      if CurTok g' = tok_indentifier
      then ParsePrototypeArgs (ArgNames @ [identifierStr g']) g'
      else (ArgNames, g'))"
  by pat_completeness auto
termination
proof (relation "measure (\<lambda>(ArgNames, g). unread g)")
  show "wf (measure (\<lambda>(ArgNames :: string list, g). unread g))" by simp
next
  fix ArgNames :: "string list" and g g' :: globals
  assume g': "g' = getNextToken g" and tok: "CurTok g' = tok_indentifier"
  obtain t h where gt: "getok g = (t, h)" by (cases "getok g")
  have "t = tok_indentifier" and "unread g' = unread h"
    using g' tok gt by (simp_all add: getNextToken_def unread_def)
  moreover have "t \<noteq> tok_eof \<Longrightarrow> unread h < unread g"
    using gt by (rule unread_getok)
  ultimately have "unread g' < unread g"
    by (simp add: tok_indentifier_def tok_eof_def)
  then show "((ArgNames @ [identifierStr g'], g'), (ArgNames, g))
      \<in> measure (\<lambda>(ArgNames, g). unread g)"
    by simp
qed

declare ParsePrototypeArgs.simps [simp del]

definition ParsePrototype :: "globals \<Rightarrow> PrototypeAST option \<times> globals" where
  "ParsePrototype g =
     (if CurTok g \<noteq> tok_indentifier
      then (None, LogError ''Expected function name in prototype'' g)
      else
        (let FnName = identifierStr g;
             g1 = getNextToken g in
         if CurTok g1 \<noteq> of_char CHR ''(''
         then (None, LogError (''Expected '' @ [CHR 0x27, CHR ''('', CHR 0x27] @ '' in prototype'') g1)
         else
           (let (ArgNames, g2) = ParsePrototypeArgs [] g1 in
            if CurTok g2 \<noteq> of_char CHR '')''
            then (None, LogError (''Expected '' @ [CHR 0x27, CHR '')'', CHR 0x27] @ '' in prototype'') g2)
            else (Some (PrototypeAST FnName ArgNames), getNextToken g2))))"

definition ParseDefinition :: "nat \<Rightarrow> globals \<Rightarrow> (FunctionAST option \<times> globals) option" where
  "ParseDefinition n g =
     (let g1 = getNextToken g;
          (Proto, g2) = ParsePrototype g1 in
      case Proto of
        None \<Rightarrow> Some (None, g2)
      | Some P \<Rightarrow>
          (case ParseExpression n g2 of
             None \<Rightarrow> None
           | Some (Some E, g3) \<Rightarrow> Some (Some (FunctionAST P E), g3)
           | Some (None, g3) \<Rightarrow> Some (None, g3)))"

definition ParseExtern :: "globals \<Rightarrow> PrototypeAST option \<times> globals" where
  "ParseExtern g = ParsePrototype (getNextToken g)"

definition ParseTopLevelExpr :: "nat \<Rightarrow> globals \<Rightarrow> (FunctionAST option \<times> globals) option" where
  "ParseTopLevelExpr n g =
     (case ParseExpression n g of
        None \<Rightarrow> None
      | Some (Some E, g1) \<Rightarrow> Some (Some (FunctionAST (PrototypeAST ''__anon_expr'' []) E), g1)
      | Some (None, g1) \<Rightarrow> Some (None, g1))"

section \<open>The IR library, as far as the code generator uses it\<close>

text \<open>
  The library is not part of the repository. The definitions of this section state what
  its calls do to the module, from the library's documented behaviour:
  \<^item> a name is unique in its symbol table (the module's for functions, the function's
    for arguments); a value set to a name that is taken gets the name with the next free
    number appended, after a dot for a function; an empty name leaves the value unnamed
    and out of the table; the name of an argument is cut to 1024 characters;
  \<^item> looking a function up by name finds the function of that name in the table;
  \<^item> the instruction builder appends an instruction to the block at its insertion point,
    except that an operation on constants is folded into a constant;
  \<^item> erasing a function takes it out of the module with all its blocks (a call of it in
    another function is left as it is, holding the pointer of the erased function).
\<close>

fun dec :: "nat \<Rightarrow> string" where
  "dec n = (if n < 10 then [char_of (48 + n)] else dec (n div 10) @ [char_of (48 + n mod 10)])"

declare dec.simps [simp del]

lemma dec_bound: "n < 10 ^ length (dec n)"
proof (induction n rule: dec.induct)
  case (1 n)
  show ?case
  proof (cases "n < 10")
    case True
    then show ?thesis by (subst dec.simps) simp
  next
    case False
    then have "n div 10 < 10 ^ length (dec (n div 10))" using 1 by simp
    then have "n < 10 * 10 ^ length (dec (n div 10))" by simp
    then show ?thesis using False by (subst dec.simps) simp
  qed
qed

definition max_name_length :: "string list \<Rightarrow> nat" where
  "max_name_length vmap = Max (insert 0 (length ` set vmap))"

lemma length_le_max_name_length: "x \<in> set vmap \<Longrightarrow> length x \<le> max_name_length vmap"
  by (simp add: max_name_length_def)

function makeUniqueName :: "bool \<Rightarrow> string list \<Rightarrow> string \<Rightarrow> nat \<Rightarrow> string \<times> nat" where
  "makeUniqueName isGlobal vmap Name LastUnique =
     (let LastUnique' = LastUnique + 1;
          UniqueName = Name @ (if isGlobal then ''.'' else []) @ dec LastUnique' in
      if UniqueName \<in> set vmap
      then makeUniqueName isGlobal vmap Name LastUnique'
      else (UniqueName, LastUnique'))"
  by pat_completeness auto
termination
proof (relation "measure (\<lambda>(isGlobal, vmap, Name, LastUnique).
    10 ^ max_name_length vmap - LastUnique)")
  show "wf (measure (\<lambda>(isGlobal :: bool, vmap, Name :: string, LastUnique).
    10 ^ max_name_length vmap - LastUnique))" by simp
next
  fix isGlobal :: bool and vmap :: "string list" and Name UniqueName :: string
    and LastUnique LastUnique' :: nat
  assume c: "LastUnique' = LastUnique + 1"
    and u: "UniqueName = Name @ (if isGlobal then ''.'' else []) @ dec LastUnique'"
    and m: "UniqueName \<in> set vmap"
  have "length (dec LastUnique') \<le> length UniqueName" by (simp add: u)
  also have "\<dots> \<le> max_name_length vmap" using m by (rule length_le_max_name_length)
  finally have "(10::nat) ^ length (dec LastUnique') \<le> 10 ^ max_name_length vmap"
    by (rule power_increasing) simp
  with dec_bound [of LastUnique'] have "LastUnique' < 10 ^ max_name_length vmap"
    by (rule less_le_trans)
  then show "((isGlobal, vmap, Name, LastUnique'), (isGlobal, vmap, Name, LastUnique))
      \<in> measure (\<lambda>(isGlobal, vmap, Name, LastUnique). 10 ^ max_name_length vmap - LastUnique)"
    using c by simp
qed

declare makeUniqueName.simps [simp del]

text \<open>\<^verbatim>\<open>Value::setName\<close>: the name the value ends up with, and the counter of the table.\<close>

definition setName :: "bool \<Rightarrow> string list \<Rightarrow> string \<Rightarrow> nat \<Rightarrow> string \<times> nat" where
  "setName isGlobal vmap Name LastUnique =
     (if Name = [] then ([], LastUnique)
      else
        (let NameRef = (if \<not> isGlobal \<and> length Name > 1024 then take 1024 Name else Name) in
         if NameRef \<notin> set vmap then (NameRef, LastUnique)
         else makeUniqueName isGlobal vmap NameRef LastUnique))"

definition module_names :: "globals \<Rightarrow> string list" where
  "module_names g = filter (\<lambda>n. n \<noteq> []) (map fn_name (TheModule g))"

text \<open>\<^verbatim>\<open>TheModule->getFunction(Name)\<close>\<close>

definition getFunction :: "globals \<Rightarrow> string \<Rightarrow> llfunction option" where
  "getFunction g Name = find (\<lambda>F. fn_name F = Name \<and> Name \<noteq> []) (TheModule g)"

text \<open>\<^verbatim>\<open>Function::Create(FT, ExternalLinkage, Name, TheModule.get())\<close> for a
  signature of \<open>nargs\<close> parameters: a new function with unnamed arguments and no block, at
  the end of the module.\<close>

definition Function_Create :: "string \<Rightarrow> nat \<Rightarrow> globals \<Rightarrow> llfunction \<times> globals" where
  "Function_Create Name nargs g =
     (let (nm, lu) = setName True (module_names g) Name (ModuleLastUnique g);
          F = \<lparr>fn_id = NextAddr g, fn_name = nm, fn_args = replicate nargs [], fn_blocks = []\<rparr>
      in (F, g\<lparr>TheModule := TheModule g @ [F], ModuleLastUnique := lu,
                NextAddr := NextAddr g + 1\<rparr>))"

text \<open>\<^verbatim>\<open>for(auto &Arg: F->args()) Arg.setName(Args[Idx++]);\<close> on a function whose
  arguments have no names yet: \<open>named\<close> are the arguments named so far.\<close>

fun setArgNames :: "string list \<Rightarrow> string list \<Rightarrow> nat \<Rightarrow> string list" where
  "setArgNames [] named LastUnique = named"
| "setArgNames (a # Args) named LastUnique =
     (let (nm, lu) = setName False named a LastUnique
      in setArgNames Args (named @ [nm]) lu)"

definition update_fn :: "nat \<Rightarrow> (llfunction \<Rightarrow> llfunction) \<Rightarrow> llfunction list \<Rightarrow> llfunction list" where
  "update_fn fid h M = map (\<lambda>F. if fn_id F = fid then h F else F) M"

text \<open>\<^verbatim>\<open>BasicBlock::Create(*TheContext, "entry", TheFunction)\<close>: a new empty block at the
  end of the function; the block is known by the function and its position.\<close>

definition BasicBlock_Create :: "llfunction \<Rightarrow> globals \<Rightarrow> (nat \<times> nat) \<times> globals" where
  "BasicBlock_Create F g =
     ((fn_id F, length (fn_blocks F)),
      g\<lparr>TheModule := update_fn (fn_id F) (\<lambda>F'. F'\<lparr>fn_blocks := fn_blocks F' @ [[]]\<rparr>) (TheModule g)\<rparr>)"

definition append_to_block :: "nat \<Rightarrow> (nat \<times> instr) \<Rightarrow> llfunction \<Rightarrow> llfunction" where
  "append_to_block bb x F =
     (if bb < length (fn_blocks F)
      then F\<lparr>fn_blocks := (fn_blocks F)[bb := fn_blocks F ! bb @ [x]]\<rparr>
      else F)"

text \<open>The builder's insertion of a new instruction of result type \<open>ty\<close>.\<close>

definition Insert :: "lltype \<Rightarrow> instr \<Rightarrow> globals \<Rightarrow> llvalue \<times> globals" where
  "Insert ty I g =
     (let a = NextAddr g;
          g' = g\<lparr>NextAddr := a + 1\<rparr> in
      case InsertPoint g of
        None \<Rightarrow> (InstructionV a ty, g')
      | Some (fid, bb) \<Rightarrow>
          (InstructionV a ty,
           g'\<lparr>TheModule := update_fn fid (append_to_block bb (a, I)) (TheModule g)\<rparr>))"

definition CreateAdd :: "llvalue \<Rightarrow> llvalue \<Rightarrow> globals \<Rightarrow> llvalue \<times> globals" where
  "CreateAdd L R g =
     (case (L, R) of
        (ConstantInt32 a, ConstantInt32 b) \<Rightarrow> (ConstantInt32 (a + b), g)
      | _ \<Rightarrow> Insert I32 (Add L R) g)"

definition CreateSub :: "llvalue \<Rightarrow> llvalue \<Rightarrow> globals \<Rightarrow> llvalue \<times> globals" where
  "CreateSub L R g =
     (case (L, R) of
        (ConstantInt32 a, ConstantInt32 b) \<Rightarrow> (ConstantInt32 (a - b), g)
      | _ \<Rightarrow> Insert I32 (Sub L R) g)"

definition CreateMul :: "llvalue \<Rightarrow> llvalue \<Rightarrow> globals \<Rightarrow> llvalue \<times> globals" where
  "CreateMul L R g =
     (case (L, R) of
        (ConstantInt32 a, ConstantInt32 b) \<Rightarrow> (ConstantInt32 (a * b), g)
      | _ \<Rightarrow> Insert I32 (Mul L R) g)"

definition CreateICmpULT :: "llvalue \<Rightarrow> llvalue \<Rightarrow> globals \<Rightarrow> llvalue \<times> globals" where
  "CreateICmpULT L R g =
     (case (L, R) of
        (ConstantInt32 a, ConstantInt32 b) \<Rightarrow> (ConstantInt1 (a < b), g)
      | _ \<Rightarrow> Insert I1 (ICmpULT L R) g)"

text \<open>\<^verbatim>\<open>CreateZExt(V, Type::getInt32Ty(*TheContext))\<close>\<close>

definition CreateZExt :: "llvalue \<Rightarrow> globals \<Rightarrow> llvalue \<times> globals" where
  "CreateZExt V g =
     (if type_of V = I32 then (V, g)
      else
        (case V of
           ConstantInt1 b \<Rightarrow> (ConstantInt32 (if b then 1 else 0), g)
         | _ \<Rightarrow> Insert I32 (ZExt V) g))"

definition CreateCall :: "llfunction \<Rightarrow> llvalue list \<Rightarrow> globals \<Rightarrow> llvalue \<times> globals" where
  "CreateCall CalleeF ArgsV g = Insert I32 (Call (fn_id CalleeF) ArgsV) g"

definition CreateRet :: "llvalue \<Rightarrow> globals \<Rightarrow> globals" where
  "CreateRet V g = snd (Insert Void (Ret V) g)"

text \<open>\<^verbatim>\<open>TheFunction->eraseFromParent()\<close>\<close>

definition eraseFromParent :: "llfunction \<Rightarrow> globals \<Rightarrow> globals" where
  "eraseFromParent F g = g\<lparr>TheModule := filter (\<lambda>F'. fn_id F' \<noteq> fn_id F) (TheModule g)\<rparr>"

section \<open>Code generation\<close>

text \<open>
  \<^verbatim>\<open>llvm::APInt(32, Val, true)\<close> takes a 64-bit unsigned value, so the \<^verbatim>\<open>double\<close> is
  first converted to one: C++ drops the fractional part. (The conversion is undefined
  for a value that does not fit after that; the model wraps there, and gives zero for
  infinity.) The constant keeps the low 32 bits.
\<close>

definition fptoui64 :: "double \<Rightarrow> 64 word" where
  "fptoui64 d =
     (case d of
        Finite v \<Rightarrow> word_of_int (if 0 \<le> v then \<lfloor>v\<rfloor> else \<lceil>v\<rceil>)
      | PlusInfinity \<Rightarrow> 0)"

definition APInt32 :: "64 word \<Rightarrow> bool \<Rightarrow> 32 word" where
  "APInt32 val isSigned = ucast val"

definition LogErrorV :: "string \<Rightarrow> globals \<Rightarrow> llvalue option \<times> globals" where
  "LogErrorV Str g = (None, LogError Str g)"

text \<open>
  \<^verbatim>\<open>NamedValues[Name]\<close> reads a \<^verbatim>\<open>std::map\<close> with \<^verbatim>\<open>operator[]\<close>: a name that is not
  there gives the null pointer, as does a name entered with it.
  \<open>codegen_args\<close> is the loop of \<^verbatim>\<open>CallExprAST::codegen\<close> over the arguments.
\<close>

fun ExprAST_codegen :: "ExprAST \<Rightarrow> globals \<Rightarrow> llvalue option \<times> globals"
  and codegen_args :: "ExprAST list \<Rightarrow> llvalue list \<Rightarrow> globals \<Rightarrow> llvalue list option \<times> globals"
where
  "ExprAST_codegen (NumberExprAST Val) g =
     (Some (ConstantInt32 (APInt32 (fptoui64 Val) True)), g)"
| "ExprAST_codegen (VariableExprAST Name) g =
     (case NamedValues g Name of
        None \<Rightarrow> LogErrorV ''Unknown variable name'' g
      | Some V \<Rightarrow> (Some V, g))"
| "ExprAST_codegen (BinaryExprAST Op LHS RHS) g =
     (let (L, g1) = ExprAST_codegen LHS g;
          (R, g2) = ExprAST_codegen RHS g1 in
      case (L, R) of
        (Some L', Some R') \<Rightarrow>
          (if Op = CHR ''+'' then (let (V, g3) = CreateAdd L' R' g2 in (Some V, g3))
           else if Op = CHR ''-'' then (let (V, g3) = CreateSub L' R' g2 in (Some V, g3))
           else if Op = CHR ''*'' then (let (V, g3) = CreateMul L' R' g2 in (Some V, g3))
           else if Op = CHR ''<'' then
             (let (L'', g3) = CreateICmpULT L' R' g2;
                  (V, g4) = CreateZExt L'' g3
              in (Some V, g4))
           else LogErrorV ''invalid binary operator'' g2)
      | _ \<Rightarrow> (None, g2))"
| "ExprAST_codegen (CallExprAST Callee Args) g =
     (case getFunction g Callee of
        None \<Rightarrow> LogErrorV ''Unknown function referenced'' g
      | Some CalleeF \<Rightarrow>
          if length (fn_args CalleeF) \<noteq> length Args
          then LogErrorV ''Incorrect # arguments passed'' g
          else
            (case codegen_args Args [] g of
               (None, g1) \<Rightarrow> (None, g1)
             | (Some ArgsV, g1) \<Rightarrow> (let (V, g2) = CreateCall CalleeF ArgsV g1 in (Some V, g2))))"
| "codegen_args [] ArgsV g = (Some ArgsV, g)"
| "codegen_args (A # Args) ArgsV g =
     (case ExprAST_codegen A g of
        (None, g1) \<Rightarrow> (None, g1)
      | (Some V, g1) \<Rightarrow> codegen_args Args (ArgsV @ [V]) g1)"

definition PrototypeAST_codegen :: "PrototypeAST \<Rightarrow> globals \<Rightarrow> llfunction option \<times> globals" where
  "PrototypeAST_codegen P g =
     (let (F, g1) = Function_Create (getName P) (length (getArgs P)) g;
          F' = F\<lparr>fn_args := setArgNames (getArgs P) [] 0\<rparr>
      in (Some F', g1\<lparr>TheModule := update_fn (fn_id F) (\<lambda>_. F') (TheModule g1)\<rparr>))"

text \<open>\<^verbatim>\<open>for(auto &Arg : TheFunction->args()) NamedValues[std::string(Arg.getName())] = &Arg;\<close>\<close>

fun bind_args :: "nat \<Rightarrow> nat \<Rightarrow> string list \<Rightarrow> (string \<rightharpoonup> llvalue) \<Rightarrow> (string \<rightharpoonup> llvalue)" where
  "bind_args fid i [] m = m"
| "bind_args fid i (a # as) m = bind_args fid (i + 1) as (m(a \<mapsto> Argument fid i))"

text \<open>\<^verbatim>\<open>FunctionAST::codegen\<close>. The call of \<^verbatim>\<open>verifyFunction\<close> only reads the function,
  and its result is dropped.\<close>

fun FunctionAST_codegen :: "FunctionAST \<Rightarrow> globals \<Rightarrow> llfunction option \<times> globals" where
  "FunctionAST_codegen (FunctionAST Proto Body) g =
     (let (TheFunction, g1) =
            (case getFunction g (getName Proto) of
               Some F \<Rightarrow> (Some F, g)
             | None \<Rightarrow> PrototypeAST_codegen Proto g) in
      case TheFunction of
        None \<Rightarrow> (None, g1)
      | Some F \<Rightarrow>
          (let (BB, g2) = BasicBlock_Create F g1;
               g3 = g2\<lparr>InsertPoint := Some BB\<rparr>;
               g4 = g3\<lparr>NamedValues := bind_args (fn_id F) 0 (fn_args F) Map.empty\<rparr>
           in case ExprAST_codegen Body g4 of
                (Some RetVal, g5) \<Rightarrow> (Some F, CreateRet RetVal g5)
              | (None, g5) \<Rightarrow> (None, eraseFromParent F g5)))"

section \<open>Top-level handlers and main loop\<close>

text \<open>The handlers print the generated function on success; the model leaves the
  printing out. A handler returns nothing but the state.\<close>

definition HandleDefinition :: "nat \<Rightarrow> globals \<Rightarrow> globals option" where
  "HandleDefinition n g =
     (case ParseDefinition n g of
        None \<Rightarrow> None
      | Some (Some FnAST, g1) \<Rightarrow> Some (snd (FunctionAST_codegen FnAST g1))
      | Some (None, g1) \<Rightarrow> Some (getNextToken g1))"

definition HandleExtern :: "globals \<Rightarrow> globals" where
  "HandleExtern g =
     (case ParseExtern g of
        (Some ProtoAST, g1) \<Rightarrow> snd (PrototypeAST_codegen ProtoAST g1)
      | (None, g1) \<Rightarrow> getNextToken g1)"

definition HandleTopLevelExpression :: "nat \<Rightarrow> globals \<Rightarrow> globals option" where
  "HandleTopLevelExpression n g =
     (case ParseTopLevelExpr n g of
        None \<Rightarrow> None
      | Some (Some FnAST, g1) \<Rightarrow>
          (case FunctionAST_codegen FnAST g1 of
             (Some FnIR, g2) \<Rightarrow> Some (eraseFromParent FnIR g2)
           | (None, g2) \<Rightarrow> Some g2)
      | Some (None, g1) \<Rightarrow> Some (getNextToken g1))"

text \<open>\<^verbatim>\<open>MainLoop\<close> runs until the end token. The bound counts its rounds and is also
  the bound handed to the expression parser in each round.\<close>

fun MainLoop :: "nat \<Rightarrow> globals \<Rightarrow> globals option" where
  "MainLoop 0 g = None"
| "MainLoop (Suc n) g =
     (if CurTok g = tok_eof then Some g
      else if CurTok g = of_char CHR '';'' then MainLoop n (getNextToken g)
      else if CurTok g = tok_def then
        (case HandleDefinition n g of None \<Rightarrow> None | Some g1 \<Rightarrow> MainLoop n g1)
      else if CurTok g = tok_extern then MainLoop n (HandleExtern g)
      else
        (case HandleTopLevelExpression n g of None \<Rightarrow> None | Some g1 \<Rightarrow> MainLoop n g1))"

text \<open>The state in which \<^verbatim>\<open>main\<close> starts, on a given standard input: the lookahead
  character of the lexer is a blank, the maps and the error stream are empty.\<close>

definition startup :: "char list \<Rightarrow> globals" where
  "startup input =
     \<lparr>stdin = input, nextChar = 32, identifierStr = [], numVal = Finite 0, CurTok = 0,
      BinopPrecedence = Map.empty, stderr = [], TheModule = [], ModuleLastUnique = 0,
      NextAddr = 0, InsertPoint = None, NamedValues = Map.empty\<rparr>"

definition InitializeModuleAndPassManager :: "globals \<Rightarrow> globals" where
  "InitializeModuleAndPassManager g =
     g\<lparr>TheModule := [], ModuleLastUnique := 0, InsertPoint := None\<rparr>"

text \<open>The table that \<^verbatim>\<open>main\<close> installs before it reads the first token.\<close>

definition main_BinopPrecedence :: "globals \<Rightarrow> globals" where
  "main_BinopPrecedence g =
     g\<lparr>BinopPrecedence := (BinopPrecedence g)
         (CHR ''<'' \<mapsto> 10, CHR ''+'' \<mapsto> 20, CHR ''-'' \<mapsto> 20, CHR ''*'' \<mapsto> 40)\<rparr>"

text \<open>\<^verbatim>\<open>main\<close> up to the end of \<^verbatim>\<open>MainLoop\<close>; writing the object file is outside the
  model.\<close>

definition main :: "nat \<Rightarrow> char list \<Rightarrow> globals option" where
  "main n input =
     MainLoop n (InitializeModuleAndPassManager (getNextToken (main_BinopPrecedence (startup input))))"

section \<open>Notions used to state the properties\<close>

text \<open>A character of a numeric literal: a digit or a dot.\<close>

definition digit_or_dot :: "char \<Rightarrow> bool" where
  "digit_or_dot c \<longleftrightarrow> isdigit (of_char c) \<or> c = CHR ''.''"

text \<open>
  What the builder makes of an instruction: the constant it folds to when its operands
  are constants, or else the instruction itself, appended at the insertion point.
  \<open>emit\<close> is \<open>build\<close> returning a pointer that is not null.
\<close>

fun fold_const :: "instr \<Rightarrow> llvalue option" where
  "fold_const (Add (ConstantInt32 a) (ConstantInt32 b)) = Some (ConstantInt32 (a + b))"
| "fold_const (Sub (ConstantInt32 a) (ConstantInt32 b)) = Some (ConstantInt32 (a - b))"
| "fold_const (Mul (ConstantInt32 a) (ConstantInt32 b)) = Some (ConstantInt32 (a * b))"
| "fold_const (ICmpULT (ConstantInt32 a) (ConstantInt32 b)) = Some (ConstantInt1 (a < b))"
| "fold_const (ZExt (ConstantInt1 b)) = Some (ConstantInt32 (if b then 1 else 0))"
| "fold_const I = None"

definition build :: "lltype \<Rightarrow> instr \<Rightarrow> globals \<Rightarrow> llvalue \<times> globals" where
  "build ty I g = (case fold_const I of Some c \<Rightarrow> (c, g) | None \<Rightarrow> Insert ty I g)"

definition emit :: "lltype \<Rightarrow> instr \<Rightarrow> globals \<Rightarrow> llvalue option \<times> globals" where
  "emit ty I g = (let (V, g') = build ty I g in (Some V, g'))"

text \<open>A state in the middle of generating \<^verbatim>\<open>def f(x) ...\<close>: the module holds \<open>f\<close> with
  its entry block, still empty, and the builder is set to that block.\<close>

definition example_state :: globals where
  "example_state =
     (startup [])\<lparr>TheModule := [\<lparr>fn_id = 0, fn_name = ''f'', fn_args = [''x''], fn_blocks = [[]]\<rparr>],
        NextAddr := 1, InsertPoint := Some (0, 0),
        NamedValues := [''x'' \<mapsto> Argument 0 0]\<rparr>"

text \<open>The state in which \<^verbatim>\<open>FunctionAST::codegen\<close> generates the body: the function it
  works on has been looked up or declared, its new entry block made the insertion point,
  and the symbol table filled from its arguments.\<close>

definition entry_state :: "FunctionAST \<Rightarrow> globals \<Rightarrow> globals" where
  "entry_state Fn g =
     (case Fn of FunctionAST Proto Body \<Rightarrow>
        (let (TheFunction, g1) =
               (case getFunction g (getName Proto) of
                  Some F \<Rightarrow> (Some F, g)
                | None \<Rightarrow> PrototypeAST_codegen Proto g) in
         case TheFunction of
           None \<Rightarrow> g1
         | Some F \<Rightarrow>
             (snd (BasicBlock_Create F g1))
               \<lparr>InsertPoint := Some (fst (BasicBlock_Create F g1)),
                NamedValues := bind_args (fn_id F) 0 (fn_args F) Map.empty\<rparr>))"

text \<open>Pointers handed out so far lie below the counter; the names of all functions of
  the module, in order.\<close>

definition ids_below_NextAddr :: "globals \<Rightarrow> bool" where
  "ids_below_NextAddr g \<longleftrightarrow> (\<forall>F\<in>set (TheModule g). fn_id F < NextAddr g)"

definition function_names :: "globals \<Rightarrow> string list" where
  "function_names g = map fn_name (TheModule g)"

text \<open>Between two states, the insertion point and every function but the one with
  pointer \<open>fid\<close> are the same.\<close>

definition untouched :: "nat \<Rightarrow> globals \<Rightarrow> globals \<Rightarrow> bool" where
  "untouched fid g g' \<longleftrightarrow>
     InsertPoint g' = InsertPoint g
     \<and> filter (\<lambda>F. fn_id F \<noteq> fid) (TheModule g') = filter (\<lambda>F. fn_id F \<noteq> fid) (TheModule g)"

text \<open>The module after \<^verbatim>\<open>extern foo(a b)\<close> alone; the prototype and the definition
  \<^verbatim>\<open>def foo(a b) a+b\<close>.\<close>

definition foo_declared :: globals where
  "foo_declared =
     (startup [])\<lparr>TheModule := [\<lparr>fn_id = 0, fn_name = ''foo'', fn_args = [''a'', ''b''], fn_blocks = []\<rparr>],
        NextAddr := 1\<rparr>"

definition foo_proto :: PrototypeAST where
  "foo_proto = PrototypeAST ''foo'' [''a'', ''b'']"

definition foo_def :: FunctionAST where
  "foo_def = FunctionAST foo_proto
     (BinaryExprAST CHR ''+'' (VariableExprAST ''a'') (VariableExprAST ''b''))"

text \<open>An expression all of whose binary operators are among the four of the table that
  \<^verbatim>\<open>main\<close> installs; a state whose table has no other keys.\<close>

fun known_binops :: "ExprAST \<Rightarrow> bool" where
  "known_binops (NumberExprAST Val) = True"
| "known_binops (VariableExprAST Name) = True"
| "known_binops (BinaryExprAST Op LHS RHS) =
     (Op \<in> {CHR ''<'', CHR ''+'', CHR ''-'', CHR ''*''} \<and> known_binops LHS \<and> known_binops RHS)"
| "known_binops (CallExprAST Callee Args) = list_all known_binops Args"

definition table_within :: "globals \<Rightarrow> bool" where
  "table_within g \<longleftrightarrow> dom (BinopPrecedence g) \<subseteq> {CHR ''<'', CHR ''+'', CHR ''-'', CHR ''*''}"

text \<open>
  The shape of what \<^verbatim>\<open>ParseBinOpRHS\<close> builds. An operator tree has primary expressions at
  its leaves and binary operators at its nodes; \<open>expr_of\<close> is the expression it stands
  for. Read from left to right it is a first operand followed by operators, each with
  its operand. A tree respects the precedences \<open>pr\<close> when at each node all operators of
  the left subtree bind at least as tightly as the node's, and all operators of the right
  subtree bind strictly tighter: tighter operators sit deeper, and of two operators of
  equal precedence the left one sits deeper.
\<close>

datatype optree = Leaf ExprAST | Node char optree optree

fun expr_of :: "optree \<Rightarrow> ExprAST" where
  "expr_of (Leaf e) = e"
| "expr_of (Node Op l r) = BinaryExprAST Op (expr_of l) (expr_of r)"

fun first_operand :: "optree \<Rightarrow> ExprAST" where
  "first_operand (Leaf e) = e"
| "first_operand (Node Op l r) = first_operand l"

fun rest_operands :: "optree \<Rightarrow> (char \<times> ExprAST) list" where
  "rest_operands (Leaf e) = []"
| "rest_operands (Node Op l r) = rest_operands l @ (Op, first_operand r) # rest_operands r"

definition node_ops :: "optree \<Rightarrow> char list" where
  "node_ops t = map fst (rest_operands t)"

fun wellprec :: "(char \<Rightarrow> int) \<Rightarrow> optree \<Rightarrow> bool" where
  "wellprec pr (Leaf e) = True"
| "wellprec pr (Node Op l r) =
     ((\<forall>o'\<in>set (node_ops l). pr Op \<le> pr o') \<and> (\<forall>o'\<in>set (node_ops r). pr Op < pr o')
      \<and> wellprec pr l \<and> wellprec pr r)"

text \<open>The precedence of a character in a table (0 when it is not a key).\<close>

definition prec_of :: "(char \<rightharpoonup> int) \<Rightarrow> char \<Rightarrow> int" where
  "prec_of tbl c = (case tbl c of None \<Rightarrow> 0 | Some p \<Rightarrow> p)"

text \<open>
  \<open>operand_chain n g items\<close> reads, from a state \<open>g\<close> whose current token is an
  operator, the operators and primary expressions \<open>items\<close> one after the other (each
  primary parsed by \<open>ParsePrimary\<close> with bound \<open>n\<close>), and gives the state after the last;
  it is \<open>None\<close> if the input does not continue that way.
\<close>

fun operand_chain :: "nat \<Rightarrow> globals \<Rightarrow> (char \<times> ExprAST) list \<Rightarrow> globals option" where
  "operand_chain n g [] = Some g"
| "operand_chain n g ((Op, e) # items) =
     (if 0 < GetTokPrecedence g \<and> char_of (CurTok g) = Op then
        (case ParsePrimary n (getNextToken g) of
           Some (Some e', g1) \<Rightarrow> if e' = e then operand_chain n g1 items else None
         | _ \<Rightarrow> None)
      else None)"

text \<open>The state in which \<^verbatim>\<open>MainLoop\<close> starts on a given input: table installed, first
  token read.\<close>

definition main_state :: "char list \<Rightarrow> globals" where
  "main_state input = getNextToken (main_BinopPrecedence (startup input))"

section \<open>The lexer's number token\<close>

lemma of_char_eq_dot: "(of_char r :: int) = 46 \<longleftrightarrow> r = CHR ''.''"
  using of_char_eq_iff [where ?'a = int, of r "CHR ''.''"] by simp

lemma of_char_not_EOF: "(of_char r :: int) \<noteq> EOF"
proof -
  have "(of_char r :: int) = int (of_char r)" by (simp add: of_nat_of_char)
  then show ?thesis by (simp add: EOF_def)
qed

lemma getchar_Cons: "stdin g = r # rs \<Longrightarrow> getchar g = g\<lparr>stdin := rs, nextChar := of_char r\<rparr>"
  by (simp add: getchar_def)

lemma getchar_Nil: "stdin g = [] \<Longrightarrow> getchar g = g\<lparr>nextChar := EOF\<rparr>"
  by (simp add: getchar_def)

lemma skip_whitespace_spaces:
  assumes "nextChar g = of_char c" and "c # stdin g = ws @ x # tail"
    and "\<forall>w\<in>set ws. isspace (of_char w)" and "\<not> isspace (of_char x)"
  shows "skip_whitespace g = g\<lparr>stdin := tail, nextChar := of_char x\<rparr>"
  using assms
proof (induction ws arbitrary: g c)
  case Nil
  then have "c = x" "stdin g = tail" by simp_all
  with Nil show ?case by (subst skip_whitespace.simps) simp
next
  case (Cons w ws)
  from Cons.prems(2) have c: "c = w" and st: "stdin g = ws @ x # tail" by simp_all
  obtain d ds where "ws @ x # tail = d # ds" by (cases ws) auto
  with st have dd: "stdin g = d # ds" by simp
  let ?g1 = "g\<lparr>stdin := ds, nextChar := of_char d\<rparr>"
  have "skip_whitespace ?g1 = ?g1\<lparr>stdin := tail, nextChar := of_char x\<rparr>"
  proof (rule Cons.IH)
    show "nextChar ?g1 = of_char d" by simp
    show "d # stdin ?g1 = ws @ x # tail" using st dd by simp
    show "\<forall>w\<in>set ws. isspace (of_char w)" using Cons.prems(3) by simp
    show "\<not> isspace (of_char x)" by (rule Cons.prems(4))
  qed
  moreover have "isspace (nextChar g)" using Cons.prems(1,3) c by simp
  ultimately show ?case
    by (subst skip_whitespace.simps) (simp add: getchar_Cons [OF dd])
qed

lemma read_number_run:
  assumes "stdin g = run @ rest" and "\<forall>r\<in>set run. digit_or_dot r"
    and "case rest of [] \<Rightarrow> True | r # rs \<Rightarrow> \<not> digit_or_dot r"
  shows "read_number acc g =
     (acc @ char_of (nextChar g) # run,
      case rest of [] \<Rightarrow> g\<lparr>stdin := [], nextChar := EOF\<rparr>
      | r # rs \<Rightarrow> g\<lparr>stdin := rs, nextChar := of_char r\<rparr>)"
  using assms
proof (induction run arbitrary: g acc)
  case Nil
  show ?case
  proof (cases rest)
    case Nil
    with Nil.prems show ?thesis
      by (subst read_number.simps) (simp add: getchar_Nil isdigit_def EOF_def)
  next
    case (Cons r rs)
    with Nil.prems have "\<not> isdigit (of_char r)" "r \<noteq> CHR ''.''"
      by (simp_all add: digit_or_dot_def)
    with Nil.prems Cons show ?thesis
      by (subst read_number.simps) (simp add: getchar_Cons of_char_eq_dot)
  qed
next
  case (Cons d run)
  let ?g1 = "g\<lparr>stdin := run @ rest, nextChar := of_char d\<rparr>"
  have g1: "getchar g = ?g1" using Cons.prems(1) by (simp add: getchar_Cons)
  have d: "isdigit (of_char d) \<or> d = CHR ''.''"
    using Cons.prems(2) by (simp add: digit_or_dot_def)
  have "read_number (acc @ [char_of (nextChar g)]) ?g1 =
     ((acc @ [char_of (nextChar g)]) @ char_of (nextChar ?g1) # run,
      case rest of [] \<Rightarrow> ?g1\<lparr>stdin := [], nextChar := EOF\<rparr>
      | r # rs \<Rightarrow> ?g1\<lparr>stdin := rs, nextChar := of_char r\<rparr>)"
    by (rule Cons.IH) (use Cons.prems in simp_all)
  then show ?case
    using d by (subst read_number.simps) (auto simp add: g1 Let_def of_char_eq_dot split: list.splits)
qed

text \<open>
  The values \<^verbatim>\<open>strtod\<close> gives for some runs of digits and dots: 1.2 and 2.9 are not
  doubles and are rounded (to \<^verbatim>\<open>0x1.3333333333333p+0\<close> and \<^verbatim>\<open>0x1.7333333333333p+1\<close>);
  twenty nines after the point round up to 1; \<open>2 ^ 53 + 1\<close> lies halfway between two
  doubles and goes to the even one; a prefix without a digit gives 0.
\<close>

lemma strtod_values:
  "strtod ''1.2.3'' = Finite (5404319552844595 / 4503599627370496)"
  "strtod ''2.9'' = Finite (6530219459687219 / 2251799813685248)"
  "strtod ''0.99999999999999999999'' = Finite 1"
  "strtod ''9007199254740993'' = Finite 9007199254740992"
  "strtod ''9007199254740995'' = Finite 9007199254740996"
  "strtod ''7.'' = Finite 7"
  "strtod ''.5'' = Finite (1 / 2)"
  "strtod ''.'' = Finite 0"
  "strtod ''..5'' = Finite 0"
  by code_simp+

text \<open>
  Claim C7. Whenever the next character that is not white space is a digit or a dot, the
  lexer returns one number token for the whole maximal run of digits and dots that
  follows: the run is used up, the character after it becomes the lookahead, and
  \<^verbatim>\<open>numVal\<close> is the double that \<^verbatim>\<open>strtod\<close> reads from the run, the one nearest to the
  decimal value of its longest prefix that is a number. Nothing is checked: the run
  \<^verbatim>\<open>1.2.3\<close> is one number token (of the value that 1.2 has as a double), not an error.
\<close>

theorem getok_number_token:
  assumes look: "nextChar g = of_char c"
    and input: "c # stdin g = ws @ run @ rest"
    and ws: "\<forall>w\<in>set ws. isspace (of_char w)"
    and run: "run \<noteq> []" "\<forall>r\<in>set run. digit_or_dot r"
    and rest: "case rest of [] \<Rightarrow> True | r # rs \<Rightarrow> \<not> digit_or_dot r"
  shows "getok g =
     (tok_number,
      (case rest of [] \<Rightarrow> g\<lparr>stdin := [], nextChar := EOF\<rparr>
       | r # rs \<Rightarrow> g\<lparr>stdin := rs, nextChar := of_char r\<rparr>)\<lparr>numVal := strtod run\<rparr>)"
proof -
  obtain x run' where r: "run = x # run'" using run(1) by (cases run) auto
  have x: "isdigit (of_char x) \<or> x = CHR ''.''"
    using run(2) r by (simp add: digit_or_dot_def)
  then have nsp: "\<not> isspace (of_char x)" and nal: "\<not> isalpha (of_char x)"
    by (auto simp: isspace_def isalpha_def isdigit_def)
  let ?h = "g\<lparr>stdin := run' @ rest, nextChar := of_char x\<rparr>"
  have sk: "skip_whitespace g = ?h"
    using look input ws nsp unfolding r by (intro skip_whitespace_spaces) simp_all
  have rn: "read_number [] ?h =
     ([] @ char_of (nextChar ?h) # run',
      case rest of [] \<Rightarrow> ?h\<lparr>stdin := [], nextChar := EOF\<rparr>
      | r # rs \<Rightarrow> ?h\<lparr>stdin := rs, nextChar := of_char r\<rparr>)"
    by (rule read_number_run) (use run(2) rest r in simp_all)
  show ?thesis
    using x nal
    by (auto simp add: getok_def sk rn r Let_def of_char_eq_dot split: list.splits)
qed

theorem getok_number_token_witness:
  "getok (startup ''  1.2.3+'') =
     (tok_number,
      (startup ''  1.2.3+'')\<lparr>stdin := [], nextChar := of_char CHR ''+'',
         numVal := Finite (5404319552844595 / 4503599627370496)\<rparr>)
   \<and> fst (getok (startup ''1.2.3'')) = tok_number
   \<and> fst (getok (snd (getok (startup ''1.2.3'')))) = tok_eof"
proof -
  have "getok (startup ''  1.2.3+'') =
     (tok_number,
      (startup ''  1.2.3+'')\<lparr>stdin := [], nextChar := of_char CHR ''+'',
         numVal := strtod ''1.2.3''\<rparr>)"
    using getok_number_token [of "startup ''  1.2.3+''" "CHR '' ''" "''   ''" "''1.2.3''" "''+''"]
    by (simp add: startup_def digit_or_dot_def isspace_def isdigit_def)
  moreover have "fst (getok (startup ''1.2.3'')) = tok_number"
     "fst (getok (snd (getok (startup ''1.2.3'')))) = tok_eof"
    by code_simp+
  ultimately show ?thesis by (simp add: strtod_values)
qed

section \<open>Numeric literals\<close>

lemma ucast_64_32_of_int: "(ucast (word_of_int x :: 64 word) :: 32 word) = word_of_int x"
  by (rule bit_word_eqI) (auto simp add: bit_simps)

text \<open>
  Claim C8. Code generation of a number literal emits a constant of the 32-bit integer
  type and nothing else: no instruction, no change of state. The constant is the integer
  part of the literal's value, the fractional part being dropped, narrowed to 32 bits;
  for a value from 2 up to but excluding 3, such as the double that 2.9 is read as, it is
  the constant 2. (The value is taken non-negative and below \<open>2^64\<close>, the range in which
  the C++ conversion is defined; the lexer yields no negative value.)
\<close>

theorem NumberExprAST_codegen_constant:
  assumes "0 \<le> Val" and "Val < 2 ^ 64"
  shows "ExprAST_codegen (NumberExprAST (Finite Val)) g
     = (Some (ConstantInt32 (word_of_int \<lfloor>Val\<rfloor>)), g)"
  using assms by (simp add: APInt32_def fptoui64_def ucast_64_32_of_int)

theorem NumberExprAST_codegen_constant_witness:
  "(0::rat) \<le> 6530219459687219 / 2251799813685248
   \<and> (6530219459687219 / 2251799813685248 :: rat) < 2 ^ 64
   \<and> map_option fst (ParseExpression 2 (getNextToken (main_BinopPrecedence (startup ''2.9''))))
       = Some (Some (NumberExprAST (Finite (6530219459687219 / 2251799813685248))))
   \<and> ExprAST_codegen (NumberExprAST (Finite (6530219459687219 / 2251799813685248))) example_state
       = (Some (ConstantInt32 2), example_state)"
proof -
  let ?v = "6530219459687219 / 2251799813685248 :: rat"
  have a: "0 \<le> ?v" and b: "?v < 2 ^ 64" by simp_all
  have c: "\<lfloor>?v\<rfloor> = 2" by (simp add: floor_unique)
  have "map_option fst (ParseExpression 2 (getNextToken (main_BinopPrecedence (startup ''2.9''))))
       = Some (Some (NumberExprAST (Finite ?v)))"
    by code_simp
  then show ?thesis
    using NumberExprAST_codegen_constant [OF a b, of example_state] a b c by simp
qed

section \<open>Calls\<close>

text \<open>
  Claim C5, as amended. A call of a name that no function of the module has fails with
  the message \<^verbatim>\<open>Unknown function referenced\<close>; a call whose number of arguments differs
  from the number of parameters of the function of that name fails with the message
  \<^verbatim>\<open>Incorrect # arguments passed\<close>. In both cases the null pointer is returned and the
  state is left as it was but for that one message: no argument expression has been
  generated and no instruction emitted.
\<close>

theorem CallExprAST_codegen_errors:
  "(getFunction g Callee = None \<longrightarrow>
      ExprAST_codegen (CallExprAST Callee Args) g
        = (None, g\<lparr>stderr := stderr g @ [''Unknown function referenced'']\<rparr>))
   \<and> (\<forall>CalleeF. getFunction g Callee = Some CalleeF \<and> length (fn_args CalleeF) \<noteq> length Args \<longrightarrow>
      ExprAST_codegen (CallExprAST Callee Args) g
        = (None, g\<lparr>stderr := stderr g @ [''Incorrect # arguments passed'']\<rparr>))"
  by (simp add: LogErrorV_def LogError_def)

theorem CallExprAST_codegen_errors_witness:
  "getFunction example_state ''g'' = None
   \<and> ExprAST_codegen (CallExprAST ''g'' [NumberExprAST (Finite 1)]) example_state
        = (None, example_state\<lparr>stderr := [''Unknown function referenced'']\<rparr>)
   \<and> getFunction example_state ''f''
        = Some \<lparr>fn_id = 0, fn_name = ''f'', fn_args = [''x''], fn_blocks = [[]]\<rparr>
   \<and> ExprAST_codegen (CallExprAST ''f'' [NumberExprAST (Finite 1), VariableExprAST ''y'']) example_state
        = (None, example_state\<lparr>stderr := [''Incorrect # arguments passed'']\<rparr>)"
proof -
  have a: "getFunction example_state ''g'' = None"
    and b: "getFunction example_state ''f''
        = Some \<lparr>fn_id = 0, fn_name = ''f'', fn_args = [''x''], fn_blocks = [[]]\<rparr>"
    by (simp_all add: getFunction_def example_state_def)
  have s: "stderr example_state = []"
    by (simp add: example_state_def startup_def)
  have nl: "length (fn_args \<lparr>fn_id = 0, fn_name = ''f'', fn_args = [''x''], fn_blocks = [[]]\<rparr>)
      \<noteq> length [NumberExprAST (Finite 1), VariableExprAST ''y'']"
    by simp
  have "ExprAST_codegen (CallExprAST ''g'' [NumberExprAST (Finite 1)]) example_state
        = (None, example_state\<lparr>stderr := stderr example_state @ [''Unknown function referenced'']\<rparr>)"
    by (rule CallExprAST_codegen_errors [THEN conjunct1, THEN mp, OF a])
  moreover
  have "ExprAST_codegen (CallExprAST ''f'' [NumberExprAST (Finite 1), VariableExprAST ''y'']) example_state
        = (None, example_state\<lparr>stderr := stderr example_state @ [''Incorrect # arguments passed'']\<rparr>)"
    by (rule CallExprAST_codegen_errors [THEN conjunct2, THEN spec, THEN mp, OF conjI, OF b nl])
  ultimately show ?thesis using a b by (simp add: s)
qed

text \<open>The run \<^verbatim>\<open>def f(x) x\<close>, \<^verbatim>\<open>f(1,2)\<close> ends with one message on the error stream, and it
  is not the text \<^verbatim>\<open>incorrect number of arguments\<close>; likewise for a call of an
  undeclared \<open>g\<close>.\<close>

theorem call_error_message_counterexample:
  "map_option stderr (main 20 ''def f(x) x f(1,2)'') = Some [''Incorrect # arguments passed'']
   \<and> map_option stderr (main 20 ''def f(x) x f(1,2)'') \<noteq> Some [''incorrect number of arguments'']
   \<and> map_option stderr (main 20 ''g(1)'') = Some [''Unknown function referenced'']
   \<and> map_option stderr (main 20 ''g(1)'') \<noteq> Some [''unknown function referenced'']"
proof -
  have a: "map_option stderr (main 20 ''def f(x) x f(1,2)'') = Some [''Incorrect # arguments passed'']"
    by code_simp
  have b: "map_option stderr (main 20 ''g(1)'') = Some [''Unknown function referenced'']"
    by code_simp
  show ?thesis unfolding a b by simp
qed

section \<open>Binary operations\<close>

lemma CreateAdd_build: "CreateAdd L R g = build I32 (Add L R) g"
  by (cases L; cases R) (simp_all add: CreateAdd_def build_def)

lemma CreateSub_build: "CreateSub L R g = build I32 (Sub L R) g"
  by (cases L; cases R) (simp_all add: CreateSub_def build_def)

lemma CreateMul_build: "CreateMul L R g = build I32 (Mul L R) g"
  by (cases L; cases R) (simp_all add: CreateMul_def build_def)

lemma CreateICmpULT_build: "CreateICmpULT L R g = build I1 (ICmpULT L R) g"
  by (cases L; cases R) (simp_all add: CreateICmpULT_def build_def)

lemma CreateZExt_build:
  "CreateZExt (fst (build I1 (ICmpULT L R) g)) g' = build I32 (ZExt (fst (build I1 (ICmpULT L R) g))) g'"
  by (cases L; cases R) (simp_all add: CreateZExt_def build_def Insert_def Let_def split: option.splits)

lemma BinaryExprAST_codegen_build:
  "ExprAST_codegen (BinaryExprAST Op LHS RHS) g =
     (let (L, g1) = ExprAST_codegen LHS g;
          (R, g2) = ExprAST_codegen RHS g1 in
      case (L, R) of
        (Some l, Some r) \<Rightarrow>
          if Op = CHR ''+'' then emit I32 (Add l r) g2
          else if Op = CHR ''-'' then emit I32 (Sub l r) g2
          else if Op = CHR ''*'' then emit I32 (Mul l r) g2
          else if Op = CHR ''<'' then
            (let (c, g3) = build I1 (ICmpULT l r) g2 in emit I32 (ZExt c) g3)
          else (None, g2\<lparr>stderr := stderr g2 @ [''invalid binary operator'']\<rparr>)
      | _ \<Rightarrow> (None, g2))"
proof -
  obtain L g1 where l: "ExprAST_codegen LHS g = (L, g1)" by (cases "ExprAST_codegen LHS g")
  obtain R g2 where r: "ExprAST_codegen RHS g1 = (R, g2)" by (cases "ExprAST_codegen RHS g1")
  show ?thesis
  proof (cases L)
    case None
    then show ?thesis by (simp add: l r)
  next
    case (Some l')
    note Sl = this
    show ?thesis
    proof (cases R)
      case None
      then show ?thesis by (simp add: l r Sl)
    next
      case (Some r')
      obtain c g3 where b: "build I1 (ICmpULT l' r') g2 = (c, g3)"
        by (cases "build I1 (ICmpULT l' r') g2")
      have z: "CreateZExt c g3 = build I32 (ZExt c) g3"
        using CreateZExt_build [of l' r' g2 g3] b by simp
      show ?thesis
        by (simp add: l r Sl Some emit_def CreateAdd_build CreateSub_build CreateMul_build
            CreateICmpULT_build b z LogErrorV_def LogError_def split: prod.splits)
    qed
  qed
qed

text \<open>
  Claim C6. Code generation of a binary operation generates the left operand, then the
  right operand in the state the left one leaves, and returns the null pointer if either
  did. Otherwise \<^verbatim>\<open>+\<close>, \<^verbatim>\<open>-\<close> and \<^verbatim>\<open>*\<close> give the builder the add, subtract and
  multiply instruction of the two values; \<^verbatim>\<open><\<close> gives it the unsigned less-than
  comparison and then the zero extension of its 1-bit result to 32 bits; any other
  operator writes the message \<^verbatim>\<open>invalid binary operator\<close> and returns the null pointer.
\<close>

theorem BinaryExprAST_codegen_dispatch:
  "ExprAST_codegen (BinaryExprAST Op LHS RHS) g =
     (let (L, g1) = ExprAST_codegen LHS g;
          (R, g2) = ExprAST_codegen RHS g1 in
      case (L, R) of
        (Some l, Some r) \<Rightarrow>
          if Op = CHR ''+'' then emit I32 (Add l r) g2
          else if Op = CHR ''-'' then emit I32 (Sub l r) g2
          else if Op = CHR ''*'' then emit I32 (Mul l r) g2
          else if Op = CHR ''<'' then
            (let (c, g3) = build I1 (ICmpULT l r) g2 in emit I32 (ZExt c) g3)
          else (None, g2\<lparr>stderr := stderr g2 @ [''invalid binary operator'']\<rparr>)
      | _ \<Rightarrow> (None, g2))"
  by (rule BinaryExprAST_codegen_build)

theorem BinaryExprAST_codegen_dispatch_witness:
  "ExprAST_codegen (BinaryExprAST CHR ''<'' (VariableExprAST ''x'') (NumberExprAST (Finite 3))) example_state =
     (Some (InstructionV 2 I32),
      example_state\<lparr>NextAddr := 3,
        TheModule := [\<lparr>fn_id = 0, fn_name = ''f'', fn_args = [''x''],
          fn_blocks = [[(1, ICmpULT (Argument 0 0) (ConstantInt32 3)), (2, ZExt (InstructionV 1 I1))]]\<rparr>]\<rparr>)
   \<and> ExprAST_codegen (BinaryExprAST CHR ''-'' (VariableExprAST ''x'') (NumberExprAST (Finite 3))) example_state =
     (Some (InstructionV 1 I32),
      example_state\<lparr>NextAddr := 2,
        TheModule := [\<lparr>fn_id = 0, fn_name = ''f'', fn_args = [''x''],
          fn_blocks = [[(1, Sub (Argument 0 0) (ConstantInt32 3))]]\<rparr>]\<rparr>)
   \<and> ExprAST_codegen (BinaryExprAST CHR ''*'' (NumberExprAST (Finite 2)) (NumberExprAST (Finite 3))) example_state =
     (Some (ConstantInt32 6), example_state)
   \<and> ExprAST_codegen (BinaryExprAST CHR ''/'' (VariableExprAST ''x'') (NumberExprAST (Finite 3))) example_state =
     (None, example_state\<lparr>stderr := [''invalid binary operator'']\<rparr>)
   \<and> ExprAST_codegen (BinaryExprAST CHR ''+'' (VariableExprAST ''y'') (VariableExprAST ''z'')) example_state =
     (None, example_state\<lparr>stderr := [''Unknown variable name'', ''Unknown variable name'']\<rparr>)"
  by (simp only: BinaryExprAST_codegen_dispatch [of _ _ _ example_state])
    (simp add: example_state_def startup_def emit_def build_def Insert_def update_fn_def
      append_to_block_def LogErrorV_def LogError_def APInt32_def fptoui64_def Let_def)

section \<open>Prototypes and the functions of the module\<close>

subsection \<open>Names in a symbol table\<close>

lemma dec_not_Nil: "dec n \<noteq> []"
  by (subst dec.simps) simp

lemma makeUniqueName_fresh:
  "fst (makeUniqueName isGlobal vmap Name LastUnique) \<notin> set vmap
   \<and> fst (makeUniqueName isGlobal vmap Name LastUnique) \<noteq> []"
proof (induction isGlobal vmap Name LastUnique rule: makeUniqueName.induct)
  case (1 isGlobal vmap Name LastUnique)
  show ?case
  proof (cases "Name @ (if isGlobal then ''.'' else []) @ dec (LastUnique + 1) \<in> set vmap")
    case True
    with 1 show ?thesis by (subst (1 2) makeUniqueName.simps) (simp add: Let_def)
  next
    case False
    then show ?thesis
      by (subst (1 2) makeUniqueName.simps) (simp add: Let_def dec_not_Nil)
  qed
qed

lemma setName_global:
  "fst (setName True vmap Name lu) =
     (if Name = [] \<or> Name \<notin> set vmap then Name else fst (makeUniqueName True vmap Name lu))"
  by (simp add: setName_def)

lemma setName_global_fresh: "fst (setName True vmap Name lu) \<notin> set vmap \<or> fst (setName True vmap Name lu) = []"
  using makeUniqueName_fresh [of True vmap Name lu] by (auto simp: setName_def)

lemma setName_Nil_iff: "fst (setName isGlobal vmap Name lu) = [] \<longleftrightarrow> Name = []"
  using makeUniqueName_fresh [of isGlobal vmap _ lu]
  by (auto simp: setName_def Let_def)

lemma length_setArgNames: "length (setArgNames Args named lu) = length named + length Args"
  by (induction Args arbitrary: named lu) (auto split: prod.splits)

lemma setArgNames_distinct:
  assumes "distinct (named @ Args)" and "\<forall>a\<in>set Args. a \<noteq> [] \<and> length a \<le> 1024"
  shows "setArgNames Args named lu = named @ Args"
  using assms
proof (induction Args arbitrary: named lu)
  case Nil
  then show ?case by simp
next
  case (Cons a Args)
  then have "setName False named a lu = (a, lu)"
    by (simp add: setName_def)
  moreover have "setArgNames Args (named @ [a]) lu = (named @ [a]) @ Args"
    by (rule Cons.IH) (use Cons.prems in auto)
  ultimately show ?case by simp
qed

subsection \<open>Functions of the module\<close>

lemma update_fn_fresh: "\<forall>F\<in>set M. fn_id F \<noteq> fid \<Longrightarrow> update_fn fid h M = M"
  by (induction M) (auto simp: update_fn_def)

lemma update_fn_append: "update_fn fid h (M @ N) = update_fn fid h M @ update_fn fid h N"
  by (simp add: update_fn_def)

lemma getFunction_None_iff: "getFunction g Name = None \<longleftrightarrow> Name = [] \<or> Name \<notin> set (module_names g)"
  by (auto simp: getFunction_def module_names_def find_None_iff)

lemma getFunction_SomeD:
  "getFunction g Name = Some F \<Longrightarrow> F \<in> set (TheModule g) \<and> fn_name F = Name \<and> Name \<noteq> []"
  by (auto simp: getFunction_def find_Some_iff)

lemma PrototypeAST_codegen_result:
  assumes "ids_below_NextAddr g"
  shows "PrototypeAST_codegen (PrototypeAST Name Args) g =
     (Some \<lparr>fn_id = NextAddr g, fn_name = fst (setName True (module_names g) Name (ModuleLastUnique g)),
            fn_args = setArgNames Args [] 0, fn_blocks = []\<rparr>,
      g\<lparr>TheModule := TheModule g @
           [\<lparr>fn_id = NextAddr g, fn_name = fst (setName True (module_names g) Name (ModuleLastUnique g)),
             fn_args = setArgNames Args [] 0, fn_blocks = []\<rparr>],
         ModuleLastUnique := snd (setName True (module_names g) Name (ModuleLastUnique g)),
         NextAddr := NextAddr g + 1\<rparr>)"
proof -
  have "\<forall>F\<in>set (TheModule g). fn_id F \<noteq> NextAddr g"
    using assms by (auto simp: ids_below_NextAddr_def)
  then have "update_fn (NextAddr g) h (TheModule g) = TheModule g" for h
    by (rule update_fn_fresh)
  then show ?thesis
    by (simp add: PrototypeAST_codegen_def Function_Create_def Let_def update_fn_append
        split: prod.splits) (simp add: update_fn_def)
qed

lemma module_names_append:
  "module_names (g\<lparr>TheModule := TheModule g @ [F]\<rparr>) =
     module_names g @ (if fn_name F = [] then [] else [fn_name F])"
  by (simp add: module_names_def)

lemma module_names_subset: "set (module_names g) = set (function_names g) - {[]}"
  by (auto simp: module_names_def function_names_def)

text \<open>
  What \<^verbatim>\<open>PrototypeAST::codegen\<close> does, in every state: it never looks the name up, and
  always puts a new function, without blocks, at the end of the module and returns it.
  The function has one argument per parameter, named as in the source when the parameter
  names are distinct (and not longer than 1024 characters). If no function of the module
  has the prototype's name, the new function gets it; if one has, the new function is a
  second one, under a name that differs from the prototype's and from every name in the
  module.
\<close>

lemma PrototypeAST_codegen_creates:
  assumes "ids_below_NextAddr g"
  shows "case PrototypeAST_codegen P g of
           (None, g') \<Rightarrow> False
         | (Some F, g') \<Rightarrow>
             TheModule g' = TheModule g @ [F] \<and> fn_id F = NextAddr g \<and> fn_blocks F = []
             \<and> length (fn_args F) = length (getArgs P)
             \<and> (distinct (getArgs P) \<and> (\<forall>a\<in>set (getArgs P). a \<noteq> [] \<and> length a \<le> 1024)
                  \<longrightarrow> fn_args F = getArgs P)
             \<and> (getFunction g (getName P) = None \<longrightarrow> fn_name F = getName P)
             \<and> (getFunction g (getName P) \<noteq> None \<longrightarrow>
                  fn_name F \<noteq> getName P \<and> fn_name F \<notin> set (function_names g))
             \<and> (distinct (module_names g) \<longrightarrow> distinct (module_names g'))
             \<and> ids_below_NextAddr g' \<and> stderr g' = stderr g"
proof (cases P)
  case (PrototypeAST Name Args)
  let ?nm = "fst (setName True (module_names g) Name (ModuleLastUnique g))"
  let ?F = "\<lparr>fn_id = NextAddr g, fn_name = ?nm, fn_args = setArgNames Args [] 0, fn_blocks = []\<rparr>"
  let ?g' = "g\<lparr>TheModule := TheModule g @ [?F],
         ModuleLastUnique := snd (setName True (module_names g) Name (ModuleLastUnique g)),
         NextAddr := NextAddr g + 1\<rparr>"
  have res: "PrototypeAST_codegen P g = (Some ?F, ?g')"
    unfolding PrototypeAST using assms by (rule PrototypeAST_codegen_result)
  have fresh: "?nm \<notin> set (module_names g) \<or> ?nm = []"
    by (rule setName_global_fresh)
  have a: "getFunction g Name = None \<longrightarrow> ?nm = Name"
    by (auto simp: getFunction_None_iff setName_global)
  have b: "getFunction g Name \<noteq> None \<longrightarrow> ?nm \<noteq> Name \<and> ?nm \<notin> set (function_names g)"
  proof
    assume "getFunction g Name \<noteq> None"
    then have n: "Name \<noteq> []" "Name \<in> set (module_names g)"
      by (auto simp: getFunction_None_iff)
    then have "?nm \<noteq> []" by (simp add: setName_Nil_iff)
    with fresh have "?nm \<notin> set (module_names g)" by simp
    with n \<open>?nm \<noteq> []\<close> show "?nm \<noteq> Name \<and> ?nm \<notin> set (function_names g)"
      by (auto simp: module_names_subset)
  qed
  have c: "distinct (module_names g) \<longrightarrow> distinct (module_names ?g')"
    using fresh by (auto simp: module_names_def)
  have d: "ids_below_NextAddr ?g'"
    using assms by (auto simp: ids_below_NextAddr_def)
  have e: "distinct Args \<and> (\<forall>a\<in>set Args. a \<noteq> [] \<and> length a \<le> 1024)
      \<longrightarrow> setArgNames Args [] 0 = Args"
    using setArgNames_distinct [of "[]" Args 0] by simp
  show ?thesis
    unfolding res using a b c d e by (simp add: PrototypeAST length_setArgNames)
qed

lemma PrototypeAST_codegen_creates_foo_declared:
  "ids_below_NextAddr foo_declared \<and> distinct (module_names foo_declared)
   \<and> getFunction foo_declared ''foo''
      = Some \<lparr>fn_id = 0, fn_name = ''foo'', fn_args = [''a'', ''b''], fn_blocks = []\<rparr>
   \<and> getFunction foo_declared ''bar'' = None
   \<and> PrototypeAST_codegen (PrototypeAST ''foo'' [''a'', ''b'']) foo_declared =
       (Some \<lparr>fn_id = 1, fn_name = ''foo.1'', fn_args = [''a'', ''b''], fn_blocks = []\<rparr>,
        foo_declared\<lparr>TheModule :=
            [\<lparr>fn_id = 0, fn_name = ''foo'', fn_args = [''a'', ''b''], fn_blocks = []\<rparr>,
             \<lparr>fn_id = 1, fn_name = ''foo.1'', fn_args = [''a'', ''b''], fn_blocks = []\<rparr>],
          ModuleLastUnique := 1, NextAddr := 2\<rparr>)
   \<and> function_names (snd (PrototypeAST_codegen (PrototypeAST ''bar'' [''x'']) foo_declared))
       = [''foo'', ''bar'']
   \<and> distinct (module_names (snd (PrototypeAST_codegen (PrototypeAST ''foo'' [''a'', ''b'']) foo_declared)))"
proof -
  have i: "ids_below_NextAddr foo_declared"
    by (simp add: ids_below_NextAddr_def foo_declared_def)
  have d: "distinct (module_names foo_declared)"
    by (simp add: module_names_def foo_declared_def)
  have sn: "setName True [''foo''] ''foo'' 0 = (''foo.1'', 1)"
    and sa: "setArgNames [''a'', ''b''] [] 0 = [''a'', ''b'']"
    by code_simp+
  have r: "PrototypeAST_codegen (PrototypeAST ''foo'' [''a'', ''b'']) foo_declared =
       (Some \<lparr>fn_id = 1, fn_name = ''foo.1'', fn_args = [''a'', ''b''], fn_blocks = []\<rparr>,
        foo_declared\<lparr>TheModule :=
            [\<lparr>fn_id = 0, fn_name = ''foo'', fn_args = [''a'', ''b''], fn_blocks = []\<rparr>,
             \<lparr>fn_id = 1, fn_name = ''foo.1'', fn_args = [''a'', ''b''], fn_blocks = []\<rparr>],
          ModuleLastUnique := 1, NextAddr := 2\<rparr>)"
    unfolding PrototypeAST_codegen_result [OF i]
    by (simp add: foo_declared_def startup_def module_names_def sn sa del: setArgNames.simps)
  have n: "function_names (snd (PrototypeAST_codegen (PrototypeAST ''bar'' [''x'']) foo_declared))
       = [''foo'', ''bar'']"
    by code_simp
  have g: "getFunction foo_declared ''foo''
      = Some \<lparr>fn_id = 0, fn_name = ''foo'', fn_args = [''a'', ''b''], fn_blocks = []\<rparr>"
      "getFunction foo_declared ''bar'' = None"
    by (simp_all add: getFunction_def foo_declared_def)
  from PrototypeAST_codegen_creates [OF i, of "PrototypeAST ''foo'' [''a'', ''b'']"] d
  have "distinct (module_names (snd (PrototypeAST_codegen (PrototypeAST ''foo'' [''a'', ''b'']) foo_declared)))"
    by (simp split: prod.splits option.splits)
  with i d r n g show ?thesis by simp
qed

text \<open>
  Claim C2. Code generation of a prototype, also of an \<^verbatim>\<open>extern\<close> processed when a
  function of the same name is already declared in the module, retrieves the declared
  function and reuses it rather than creating a duplicate. The code does not: the
  program run on \<^verbatim>\<open>extern foo(a b) extern foo(a b)\<close> ends, without an error message,
  with two functions in the module, \<open>foo\<close> and a second one that the library has named
  \<open>foo.1\<close>, a name no identifier of the language can refer to. The lookup by name that
  would find the first declaration is made for a definition (\<^verbatim>\<open>FunctionAST::codegen\<close>
  calls \<^verbatim>\<open>getFunction\<close> before it generates the prototype): the run on
  \<^verbatim>\<open>extern foo(a b) def foo(a b) a+b\<close> ends with the one function \<open>foo\<close>. It is missing
  where \<^verbatim>\<open>HandleExtern\<close> calls \<^verbatim>\<open>PrototypeAST::codegen\<close> directly.
\<close>

theorem repeated_extern_duplicate:
  "map_option (\<lambda>g. (map (\<lambda>F. (fn_name F, fn_args F, fn_blocks F)) (TheModule g), stderr g))
      (main 20 ''extern foo(a b) extern foo(a b)'')
     = Some ([(''foo'', [''a'', ''b''], []), (''foo.1'', [''a'', ''b''], [])], [])
   \<and> map_option (\<lambda>g. (function_names g, stderr g)) (main 20 ''extern foo(a b) def foo(a b) a+b'')
     = Some ([''foo''], [])"
  by code_simp

section \<open>Function definitions\<close>

lemma untouched_refl: "untouched fid g g"
  by (simp add: untouched_def)

lemma untouched_trans: "untouched fid g g1 \<Longrightarrow> untouched fid g1 g2 \<Longrightarrow> untouched fid g g2"
  by (simp add: untouched_def)

lemma filter_update_fn:
  "(\<And>F. fn_id (h F) = fn_id F) \<Longrightarrow>
     filter (\<lambda>F. fn_id F \<noteq> fid) (update_fn fid h M) = filter (\<lambda>F. fn_id F \<noteq> fid) M"
  by (induction M) (auto simp: update_fn_def)

lemma fn_id_append_to_block: "fn_id (append_to_block bb x F) = fn_id F"
  by (simp add: append_to_block_def)

lemma untouched_Insert:
  "InsertPoint g = Some (fid, bb) \<Longrightarrow> untouched fid g (snd (Insert ty I g))"
  by (simp add: Insert_def untouched_def Let_def filter_update_fn fn_id_append_to_block)

lemma untouched_LogError: "untouched fid g (LogError Str g)"
  by (simp add: LogError_def untouched_def)

lemma untouched_build:
  "InsertPoint g = Some (fid, bb) \<Longrightarrow> untouched fid g (snd (build ty I g))"
  by (simp add: build_def untouched_Insert untouched_refl split: option.splits)

lemma untouched_emit:
  "InsertPoint g = Some (fid, bb) \<Longrightarrow> untouched fid g (snd (emit ty I g))"
  using untouched_build [of g fid bb ty I] by (auto simp: emit_def split: prod.splits)

lemma untouched_InsertPoint: "untouched fid g g' \<Longrightarrow> InsertPoint g' = InsertPoint g"
  by (simp add: untouched_def)

lemma codegen_untouched:
  "InsertPoint g = Some (fid, bb) \<Longrightarrow> untouched fid g (snd (ExprAST_codegen e g))"
  "InsertPoint g = Some (fid, bb) \<Longrightarrow> untouched fid g (snd (codegen_args es vs g))"
proof (induction e g and es vs g rule: ExprAST_codegen_codegen_args.induct)
  case (1 Val g)
  then show ?case by (simp add: untouched_refl)
next
  case (2 Name g)
  then show ?case
    by (simp add: untouched_refl untouched_LogError LogErrorV_def split: option.splits)
next
  case (3 Op LHS RHS g)
  obtain L g1 where l: "ExprAST_codegen LHS g = (L, g1)" by (cases "ExprAST_codegen LHS g")
  obtain R g2 where r: "ExprAST_codegen RHS g1 = (R, g2)" by (cases "ExprAST_codegen RHS g1")
  have u1: "untouched fid g g1" using 3(1) [OF 3(3)] l by simp
  then have ip1: "InsertPoint g1 = Some (fid, bb)" using 3(3) by (simp add: untouched_def)
  have u2: "untouched fid g1 g2" using 3(2) [OF l [symmetric] refl ip1] r by simp
  then have ip2: "InsertPoint g2 = Some (fid, bb)" using ip1 by (simp add: untouched_def)
  have u02: "untouched fid g g2" using u1 u2 by (rule untouched_trans)
  have final: "untouched fid g2 (snd (ExprAST_codegen (BinaryExprAST Op LHS RHS) g))"
  proof -
    have e: "\<And>ty I. untouched fid g2 (snd (emit ty I g2))"
      using ip2 by (rule untouched_emit)
    have "untouched fid g2 (snd (let (c, g3) = build I1 (ICmpULT l' r') g2 in emit I32 (ZExt c) g3))" for l' r'
    proof -
      obtain c g3 where b: "build I1 (ICmpULT l' r') g2 = (c, g3)"
        by (cases "build I1 (ICmpULT l' r') g2")
      have "untouched fid g2 g3" using untouched_build [OF ip2, of I1 "ICmpULT l' r'"] b by simp
      moreover from this have "InsertPoint g3 = Some (fid, bb)" using ip2 by (simp add: untouched_def)
      then have "untouched fid g3 (snd (emit I32 (ZExt c) g3))" by (rule untouched_emit)
      ultimately show ?thesis using b by (simp add: untouched_trans)
    qed
    then show ?thesis
      unfolding BinaryExprAST_codegen_build
      by (auto simp add: l r e untouched_refl untouched_def [of fid g2 "g2\<lparr>stderr := _\<rparr>"] split: option.splits)
  qed
  show ?case using u02 final by (rule untouched_trans)
next
  case (4 Callee Args g)
  show ?case
  proof (cases "getFunction g Callee")
    case None
    then show ?thesis by (simp add: LogErrorV_def untouched_LogError)
  next
    case (Some CalleeF)
    show ?thesis
    proof (cases "length (fn_args CalleeF) \<noteq> length Args")
      case True
      then show ?thesis using Some by (simp add: LogErrorV_def untouched_LogError)
    next
      case False
      obtain A g1 where a: "codegen_args Args [] g = (A, g1)" by (cases "codegen_args Args [] g")
      have u1: "untouched fid g g1" using 4(1) [OF Some _ 4(2)] False a by simp
      then have ip1: "InsertPoint g1 = Some (fid, bb)" using 4(2) by (simp add: untouched_def)
      show ?thesis
      proof (cases A)
        case None
        then show ?thesis using Some False a u1 by simp
      next
        case (Some ArgsV)
        have "untouched fid g1 (snd (CreateCall CalleeF ArgsV g1))"
          using ip1 by (simp add: CreateCall_def untouched_Insert)
        with u1 have "untouched fid g (snd (CreateCall CalleeF ArgsV g1))" by (rule untouched_trans)
        then show ?thesis using \<open>getFunction g Callee = Some CalleeF\<close> False a Some
          by (auto split: prod.splits)
      qed
    qed
  qed
next
  case (5 ArgsV g)
  then show ?case by (simp add: untouched_refl)
next
  case (6 A Args ArgsV g)
  obtain V g1 where v: "ExprAST_codegen A g = (V, g1)" by (cases "ExprAST_codegen A g")
  have u1: "untouched fid g g1" using 6(1) [OF 6(3)] v by simp
  then have ip1: "InsertPoint g1 = Some (fid, bb)" using 6(3) by (simp add: untouched_def)
  show ?case
  proof (cases V)
    case None
    then show ?thesis using v u1 by simp
  next
    case (Some V')
    have "untouched fid g1 (snd (codegen_args Args (ArgsV @ [V']) g1))"
      using 6(2) [OF v [symmetric] _ ip1] Some by simp
    with u1 show ?thesis using v Some by (simp add: untouched_trans)
  qed
qed

lemma filter_update_fn':
  "(\<And>F. fn_id F = fid \<Longrightarrow> fn_id (h F) = fid) \<Longrightarrow>
     filter (\<lambda>F. fn_id F \<noteq> fid) (update_fn fid h M) = filter (\<lambda>F. fn_id F \<noteq> fid) M"
  by (induction M) (auto simp: update_fn_def)

lemma PrototypeAST_codegen_Some:
  "\<exists>F g1. PrototypeAST_codegen P g = (Some F, g1) \<and> fn_id F = NextAddr g
     \<and> fn_name F = fst (setName True (module_names g) (getName P) (ModuleLastUnique g))
     \<and> filter (\<lambda>F'. fn_id F' \<noteq> NextAddr g) (TheModule g1)
         = filter (\<lambda>F'. fn_id F' \<noteq> NextAddr g) (TheModule g)"
  by (simp add: PrototypeAST_codegen_def Function_Create_def Let_def filter_update_fn'
      split: prod.splits)

lemma FunctionAST_codegen_entry:
  "FunctionAST_codegen (FunctionAST Proto Body) g =
     (case (case getFunction g (getName Proto) of
              Some F \<Rightarrow> Some F
            | None \<Rightarrow> fst (PrototypeAST_codegen Proto g)) of
        None \<Rightarrow> (None, entry_state (FunctionAST Proto Body) g)
      | Some F \<Rightarrow>
          (case ExprAST_codegen Body (entry_state (FunctionAST Proto Body) g) of
             (Some RetVal, g5) \<Rightarrow> (Some F, CreateRet RetVal g5)
           | (None, g5) \<Rightarrow> (None, eraseFromParent F g5)))"
  by (simp add: entry_state_def BasicBlock_Create_def Let_def split: option.splits prod.splits)

declare FunctionAST_codegen.simps [simp del]

lemma same_name_same_function:
  assumes "distinct (module_names g)" and "F \<in> set (TheModule g)" and "F' \<in> set (TheModule g)"
    and "fn_name F = fn_name F'" and "fn_name F \<noteq> []"
  shows "F = F'"
proof -
  have "module_names g = map fn_name (filter (\<lambda>F. fn_name F \<noteq> []) (TheModule g))"
    by (simp add: module_names_def filter_map comp_def)
  with assms(1) have "inj_on fn_name (set (filter (\<lambda>F. fn_name F \<noteq> []) (TheModule g)))"
    by (simp add: distinct_map)
  then show ?thesis using assms(2-5) by (auto dest: inj_onD)
qed

text \<open>
  Claim C4. When the body of a function definition fails to generate (names being unique
  in the module beforehand), \<^verbatim>\<open>FunctionAST::codegen\<close> returns the null pointer, and
  afterwards no function of the module has the definition's name, the function the
  builder was inserting into is gone, and every function left is a function of the module
  as it was before, unchanged.
\<close>

theorem FunctionAST_codegen_failure:
  assumes "distinct (module_names g)"
    and "fst (ExprAST_codegen Body (entry_state (FunctionAST Proto Body) g)) = None"
  shows "fst (FunctionAST_codegen (FunctionAST Proto Body) g) = None
     \<and> getFunction (snd (FunctionAST_codegen (FunctionAST Proto Body) g)) (getName Proto) = None
     \<and> set (TheModule (snd (FunctionAST_codegen (FunctionAST Proto Body) g))) \<subseteq> set (TheModule g)
     \<and> (\<forall>fid bb. InsertPoint (entry_state (FunctionAST Proto Body) g) = Some (fid, bb) \<longrightarrow>
          fid \<notin> fn_id ` set (TheModule (snd (FunctionAST_codegen (FunctionAST Proto Body) g))))"
proof -
  let ?Fn = "FunctionAST Proto Body"
  let ?g4 = "entry_state ?Fn g"
  obtain g5 where body: "ExprAST_codegen Body ?g4 = (None, g5)"
    using assms(2) by (cases "ExprAST_codegen Body ?g4") auto
  obtain F g1 where tf: "(case getFunction g (getName Proto) of
        Some F \<Rightarrow> (Some F, g) | None \<Rightarrow> PrototypeAST_codegen Proto g) = (Some F, g1)"
  proof (cases "getFunction g (getName Proto)")
    case None
    obtain F g1 where "PrototypeAST_codegen Proto g = (Some F, g1)"
      using PrototypeAST_codegen_Some [of Proto g] by blast
    with None show ?thesis by (intro that [of F g1]) simp
  next
    case (Some F0)
    then show ?thesis by (intro that [of F0 g]) simp
  qed
  have tf': "(case getFunction g (getName Proto) of
        Some F \<Rightarrow> Some F | None \<Rightarrow> fst (PrototypeAST_codegen Proto g)) = Some F"
    using tf by (auto split: option.splits)
  have res: "FunctionAST_codegen ?Fn g = (None, eraseFromParent F g5)"
    by (simp add: FunctionAST_codegen_entry tf' body)
  have g4: "?g4 = (snd (BasicBlock_Create F g1))
               \<lparr>InsertPoint := Some (fst (BasicBlock_Create F g1)),
                NamedValues := bind_args (fn_id F) 0 (fn_args F) Map.empty\<rparr>"
    using tf by (simp add: entry_state_def)
  have ip: "InsertPoint ?g4 = Some (fn_id F, length (fn_blocks F))"
    by (simp add: g4 BasicBlock_Create_def)
  have "untouched (fn_id F) ?g4 (snd (ExprAST_codegen Body ?g4))"
    using ip by (rule codegen_untouched)
  then have "filter (\<lambda>F'. fn_id F' \<noteq> fn_id F) (TheModule g5)
      = filter (\<lambda>F'. fn_id F' \<noteq> fn_id F) (TheModule ?g4)"
    by (simp add: body untouched_def)
  also have "\<dots> = filter (\<lambda>F'. fn_id F' \<noteq> fn_id F) (TheModule g1)"
    by (simp add: g4 BasicBlock_Create_def filter_update_fn)
  finally have m: "TheModule (eraseFromParent F g5) = filter (\<lambda>F'. fn_id F' \<noteq> fn_id F) (TheModule g1)"
    by (simp add: eraseFromParent_def)
  have sub: "set (TheModule (eraseFromParent F g5)) \<subseteq> set (TheModule g)"
    and gone: "getFunction (eraseFromParent F g5) (getName Proto) = None"
  proof -
    show "set (TheModule (eraseFromParent F g5)) \<subseteq> set (TheModule g)"
    proof (cases "getFunction g (getName Proto)")
      case None
      from PrototypeAST_codegen_Some [of Proto g] obtain F' g1'
        where p: "PrototypeAST_codegen Proto g = (Some F', g1')" "fn_id F' = NextAddr g"
          "filter (\<lambda>F'. fn_id F' \<noteq> NextAddr g) (TheModule g1')
            = filter (\<lambda>F'. fn_id F' \<noteq> NextAddr g) (TheModule g)"
        by blast
      with tf None have "F = F'" "g1 = g1'" by simp_all
      with p have "filter (\<lambda>F'. fn_id F' \<noteq> fn_id F) (TheModule g1)
          = filter (\<lambda>F'. fn_id F' \<noteq> fn_id F) (TheModule g)"
        by simp
      then show ?thesis unfolding m by auto
    next
      case (Some F0)
      with tf show ?thesis unfolding m by auto
    qed
    then have sub: "set (TheModule (eraseFromParent F g5)) \<subseteq> set (TheModule g)" .
    show "getFunction (eraseFromParent F g5) (getName Proto) = None"
    proof (cases "getFunction g (getName Proto)")
      case None
      then have "getName Proto = [] \<or> getName Proto \<notin> fn_name ` set (TheModule g)"
        by (auto simp: getFunction_None_iff module_names_def)
      with sub show ?thesis
        by (auto simp: getFunction_None_iff module_names_def)
    next
      case (Some F0)
      with tf have F: "F0 = F" "g1 = g" by simp_all
      from Some have F0: "F0 \<in> set (TheModule g)" "fn_name F0 = getName Proto" "getName Proto \<noteq> []"
        by (auto dest: getFunction_SomeD)
      show ?thesis
      proof (rule ccontr)
        assume "getFunction (eraseFromParent F g5) (getName Proto) \<noteq> None"
        then obtain F' where F': "F' \<in> set (TheModule (eraseFromParent F g5))"
            "fn_name F' = getName Proto"
          by (auto dest: getFunction_SomeD)
        then have "F' \<in> set (TheModule g)" "fn_id F' \<noteq> fn_id F"
          using sub m by auto
        moreover have "F0 = F'"
          using assms(1) F0(1) \<open>F' \<in> set (TheModule g)\<close> F0(2,3) F'(2)
          by (intro same_name_same_function [of g]) simp_all
        ultimately show False using F by simp
      qed
    qed
  qed
  have "fn_id F \<notin> fn_id ` set (TheModule (eraseFromParent F g5))"
    unfolding m by auto
  with sub gone show ?thesis
    unfolding res using ip by simp
qed

theorem FunctionAST_codegen_failure_witness:
  "distinct (module_names foo_declared)
   \<and> fst (ExprAST_codegen (BinaryExprAST CHR ''+'' (VariableExprAST ''a'') (VariableExprAST ''c''))
        (entry_state (FunctionAST foo_proto
           (BinaryExprAST CHR ''+'' (VariableExprAST ''a'') (VariableExprAST ''c''))) foo_declared)) = None
   \<and> fst (FunctionAST_codegen (FunctionAST foo_proto
           (BinaryExprAST CHR ''+'' (VariableExprAST ''a'') (VariableExprAST ''c''))) foo_declared) = None
   \<and> getFunction (snd (FunctionAST_codegen (FunctionAST foo_proto
           (BinaryExprAST CHR ''+'' (VariableExprAST ''a'') (VariableExprAST ''c''))) foo_declared)) ''foo'' = None
   \<and> TheModule (snd (FunctionAST_codegen (FunctionAST foo_proto
           (BinaryExprAST CHR ''+'' (VariableExprAST ''a'') (VariableExprAST ''c''))) foo_declared)) = []
   \<and> map_option function_names (main 20 ''def g(x) x def f(x) x * y'') = Some [''g'']"
proof -
  let ?body = "BinaryExprAST CHR ''+'' (VariableExprAST ''a'') (VariableExprAST ''c'')"
  have d: "distinct (module_names foo_declared)" by code_simp
  have b: "fst (ExprAST_codegen ?body (entry_state (FunctionAST foo_proto ?body) foo_declared)) = None"
    by code_simp
  have m: "TheModule (snd (FunctionAST_codegen (FunctionAST foo_proto ?body) foo_declared)) = []"
    by code_simp
  have r: "map_option function_names (main 20 ''def g(x) x def f(x) x * y'') = Some [''g'']"
    by code_simp
  from FunctionAST_codegen_failure [OF d b]
  have "fst (FunctionAST_codegen (FunctionAST foo_proto ?body) foo_declared) = None
     \<and> getFunction (snd (FunctionAST_codegen (FunctionAST foo_proto ?body) foo_declared)) (getName foo_proto) = None"
    by simp
  then show ?thesis using d b m r by (simp add: foo_proto_def)
qed


section \<open>Definitions of a declared name\<close>

lemma bind_args_other: "n \<notin> set as \<Longrightarrow> bind_args fid i as m n = m n"
  by (induction as arbitrary: i m) auto

lemma dom_bind_args: "dom (bind_args fid i as m) = dom m \<union> set as"
  by (induction as arbitrary: i m) auto

lemma bind_args_nth:
  "distinct as \<Longrightarrow> k < length as \<Longrightarrow> bind_args fid i as m (as ! k) = Some (Argument fid (i + k))"
proof (induction as arbitrary: i m k)
  case Nil
  then show ?case by simp
next
  case (Cons a as)
  show ?case
  proof (cases k)
    case 0
    then show ?thesis using Cons.prems by (simp add: bind_args_other)
  next
    case (Suc j)
    have "bind_args fid (i + 1) as (m(a \<mapsto> Argument fid i)) (as ! j) = Some (Argument fid (i + 1 + j))"
      using Cons.prems Suc by (intro Cons.IH) simp_all
    then show ?thesis using Suc by simp
  qed
qed

lemma entry_state_existing:
  assumes "getFunction g Name = Some F"
  shows "entry_state (FunctionAST (PrototypeAST Name Args) Body) g
           = g\<lparr>TheModule := update_fn (fn_id F) (\<lambda>F'. F'\<lparr>fn_blocks := fn_blocks F' @ [[]]\<rparr>) (TheModule g),
               InsertPoint := Some (fn_id F, length (fn_blocks F)),
               NamedValues := bind_args (fn_id F) 0 (fn_args F) Map.empty\<rparr>"
  using assms by (simp add: entry_state_def BasicBlock_Create_def)

text \<open>
  Claim C10. When the name of a function definition is already that of a function \<open>F\<close> of
  the module, \<^verbatim>\<open>FunctionAST::codegen\<close> works on \<open>F\<close>: it declares nothing, appends the
  entry block to \<open>F\<close>, and fills the symbol table from the argument names of \<open>F\<close>, the
  \<open>i\<close>-th name standing for the \<open>i\<close>-th argument of \<open>F\<close>. The parameter list of the
  definition's own prototype plays no part: with any other list the result is the same.
\<close>

theorem FunctionAST_codegen_existing_declaration:
  assumes "getFunction g Name = Some F"
  shows "FunctionAST_codegen (FunctionAST (PrototypeAST Name Args) Body) g
           = (case ExprAST_codegen Body (entry_state (FunctionAST (PrototypeAST Name Args) Body) g) of
                (Some RetVal, g5) \<Rightarrow> (Some F, CreateRet RetVal g5)
              | (None, g5) \<Rightarrow> (None, eraseFromParent F g5))
     \<and> entry_state (FunctionAST (PrototypeAST Name Args) Body) g
           = g\<lparr>TheModule := update_fn (fn_id F) (\<lambda>F'. F'\<lparr>fn_blocks := fn_blocks F' @ [[]]\<rparr>) (TheModule g),
               InsertPoint := Some (fn_id F, length (fn_blocks F)),
               NamedValues := bind_args (fn_id F) 0 (fn_args F) Map.empty\<rparr>
     \<and> dom (bind_args (fn_id F) 0 (fn_args F) Map.empty) = set (fn_args F)
     \<and> (distinct (fn_args F) \<longrightarrow>
          (\<forall>i<length (fn_args F).
             bind_args (fn_id F) 0 (fn_args F) Map.empty (fn_args F ! i) = Some (Argument (fn_id F) i)))
     \<and> FunctionAST_codegen (FunctionAST (PrototypeAST Name Args) Body) g
           = FunctionAST_codegen (FunctionAST (PrototypeAST Name Args') Body) g"
proof -
  have e: "entry_state (FunctionAST (PrototypeAST Name A) Body) g
           = g\<lparr>TheModule := update_fn (fn_id F) (\<lambda>F'. F'\<lparr>fn_blocks := fn_blocks F' @ [[]]\<rparr>) (TheModule g),
               InsertPoint := Some (fn_id F, length (fn_blocks F)),
               NamedValues := bind_args (fn_id F) 0 (fn_args F) Map.empty\<rparr>" for A
    using assms by (rule entry_state_existing)
  have c: "FunctionAST_codegen (FunctionAST (PrototypeAST Name A) Body) g
           = (case ExprAST_codegen Body (entry_state (FunctionAST (PrototypeAST Name A) Body) g) of
                (Some RetVal, g5) \<Rightarrow> (Some F, CreateRet RetVal g5)
              | (None, g5) \<Rightarrow> (None, eraseFromParent F g5))" for A
    using assms by (simp add: FunctionAST_codegen_entry)
  have "FunctionAST_codegen (FunctionAST (PrototypeAST Name Args) Body) g
           = FunctionAST_codegen (FunctionAST (PrototypeAST Name Args') Body) g"
    by (simp only: c e)
  with c [of Args] e [of Args] show ?thesis
    by (simp add: dom_bind_args bind_args_nth)
qed

theorem FunctionAST_codegen_existing_declaration_witness:
  "getFunction foo_declared ''foo''
     = Some \<lparr>fn_id = 0, fn_name = ''foo'', fn_args = [''a'', ''b''], fn_blocks = []\<rparr>
   \<and> FunctionAST_codegen (FunctionAST (PrototypeAST ''foo'' [''x'', ''y'', ''z''])
        (BinaryExprAST CHR ''+'' (VariableExprAST ''a'') (VariableExprAST ''b''))) foo_declared
      = FunctionAST_codegen (FunctionAST (PrototypeAST ''foo'' [''a'', ''b''])
        (BinaryExprAST CHR ''+'' (VariableExprAST ''a'') (VariableExprAST ''b''))) foo_declared
   \<and> map_option TheModule (main 20 ''extern foo(a b) def foo(x y z) a+b'')
      = Some [\<lparr>fn_id = 0, fn_name = ''foo'', fn_args = [''a'', ''b''],
          fn_blocks = [[(1, Add (Argument 0 0) (Argument 0 1)), (2, Ret (InstructionV 1 I32))]]\<rparr>]
   \<and> map_option stderr (main 20 ''extern foo(a b) def foo(x y z) a+b'') = Some []
   \<and> map_option TheModule (main 20 ''extern foo(a b) def foo(x) x'') = Some []
   \<and> map_option stderr (main 20 ''extern foo(a b) def foo(x) x'') = Some [''Unknown variable name'']"
proof -
  have g: "getFunction foo_declared ''foo''
     = Some \<lparr>fn_id = 0, fn_name = ''foo'', fn_args = [''a'', ''b''], fn_blocks = []\<rparr>"
    by code_simp
  have r: "map_option TheModule (main 20 ''extern foo(a b) def foo(x y z) a+b'')
      = Some [\<lparr>fn_id = 0, fn_name = ''foo'', fn_args = [''a'', ''b''],
          fn_blocks = [[(1, Add (Argument 0 0) (Argument 0 1)), (2, Ret (InstructionV 1 I32))]]\<rparr>]"
    "map_option stderr (main 20 ''extern foo(a b) def foo(x y z) a+b'') = Some []"
    "map_option TheModule (main 20 ''extern foo(a b) def foo(x) x'') = Some []"
    "map_option stderr (main 20 ''extern foo(a b) def foo(x) x'') = Some [''Unknown variable name'']"
    by code_simp+
  from FunctionAST_codegen_existing_declaration [OF g, of "[''x'', ''y'', ''z'']" _ "[''a'', ''b'']"]
  have "FunctionAST_codegen (FunctionAST (PrototypeAST ''foo'' [''x'', ''y'', ''z''])
        (BinaryExprAST CHR ''+'' (VariableExprAST ''a'') (VariableExprAST ''b''))) foo_declared
      = FunctionAST_codegen (FunctionAST (PrototypeAST ''foo'' [''a'', ''b''])
        (BinaryExprAST CHR ''+'' (VariableExprAST ''a'') (VariableExprAST ''b''))) foo_declared"
    by blast
  with g r show ?thesis by simp
qed

section \<open>A declaration followed by its definition\<close>

lemma find_update_fn:
  "(\<And>F. fn_name (h F) = fn_name F) \<Longrightarrow>
   find (\<lambda>F. fn_name F = n \<and> n \<noteq> []) (update_fn fid h M)
     = map_option (\<lambda>F. if fn_id F = fid then h F else F) (find (\<lambda>F. fn_name F = n \<and> n \<noteq> []) M)"
  by (induction M) (auto simp: update_fn_def)

lemma find_append_None: "find P xs = None \<Longrightarrow> find P (xs @ ys) = find P ys"
  by (induction xs) (auto split: if_splits)

lemma map_fn_name_update_fn:
  "(\<And>F. fn_name (h F) = fn_name F) \<Longrightarrow> map fn_name (update_fn fid h M) = map fn_name M"
  by (induction M) (auto simp: update_fn_def)

lemma update_fn_update_fn: "update_fn fid h2 (update_fn fid h1 M) = update_fn fid (\<lambda>F. if fn_id (h1 F) = fid then h2 (h1 F) else h1 F) M"
  by (induction M) (auto simp: update_fn_def)

lemma fn_name_append_to_block: "fn_name (append_to_block bb x F) = fn_name F"
  by (simp add: append_to_block_def)

text \<open>
  Claim C3, as amended. If no function of the module is named \<open>foo\<close> when
  \<^verbatim>\<open>extern foo(a b)\<close> is generated, the module then has the declaration \<open>foo\<close> with
  arguments \<open>a\<close> and \<open>b\<close> and no block. And whenever the module has a function \<open>foo\<close>
  with these arguments, generating \<^verbatim>\<open>def foo(a b) a+b\<close> finds it by name, returns it,
  and leaves it with one more block, the sum of its two arguments and the return; the
  module has the same function names as before and no error message is written.
\<close>

theorem extern_then_def_foo:
  "(getFunction g ''foo'' = None \<and> ids_below_NextAddr g \<longrightarrow>
       getFunction (snd (PrototypeAST_codegen foo_proto g)) ''foo''
         = Some \<lparr>fn_id = NextAddr g, fn_name = ''foo'', fn_args = [''a'', ''b''], fn_blocks = []\<rparr>)
   \<and> (\<forall>F. getFunction g ''foo'' = Some F \<and> fn_args F = [''a'', ''b''] \<longrightarrow>
         fst (FunctionAST_codegen foo_def g) = Some F
         \<and> getFunction (snd (FunctionAST_codegen foo_def g)) ''foo''
            = Some (F\<lparr>fn_blocks := fn_blocks F @
                [[(NextAddr g, Add (Argument (fn_id F) 0) (Argument (fn_id F) 1)),
                  (NextAddr g + 1, Ret (InstructionV (NextAddr g) I32))]]\<rparr>)
         \<and> function_names (snd (FunctionAST_codegen foo_def g)) = function_names g
         \<and> stderr (snd (FunctionAST_codegen foo_def g)) = stderr g)"
proof (rule conjI)
  show "getFunction g ''foo'' = None \<and> ids_below_NextAddr g \<longrightarrow>
       getFunction (snd (PrototypeAST_codegen foo_proto g)) ''foo''
         = Some \<lparr>fn_id = NextAddr g, fn_name = ''foo'', fn_args = [''a'', ''b''], fn_blocks = []\<rparr>"
  proof
  assume a: "getFunction g ''foo'' = None \<and> ids_below_NextAddr g"
  then have nm: "fst (setName True (module_names g) ''foo'' (ModuleLastUnique g)) = ''foo''"
    by (auto simp: getFunction_None_iff setName_global)
  have sa: "setArgNames [''a'', ''b''] [] 0 = [''a'', ''b'']"
    using setArgNames_distinct [of "[]" "[''a'', ''b'']" 0] by simp
  have "find (\<lambda>F. fn_name F = ''foo'') (TheModule g) = None"
    using a by (simp add: getFunction_def)
  then show "getFunction (snd (PrototypeAST_codegen foo_proto g)) ''foo''
         = Some \<lparr>fn_id = NextAddr g, fn_name = ''foo'', fn_args = [''a'', ''b''], fn_blocks = []\<rparr>"
    using a unfolding foo_proto_def
    by (simp add: PrototypeAST_codegen_result nm sa getFunction_def find_append_None del: setArgNames.simps)
  qed
next
  show "\<forall>F. getFunction g ''foo'' = Some F \<and> fn_args F = [''a'', ''b''] \<longrightarrow>
         fst (FunctionAST_codegen foo_def g) = Some F
         \<and> getFunction (snd (FunctionAST_codegen foo_def g)) ''foo''
            = Some (F\<lparr>fn_blocks := fn_blocks F @
                [[(NextAddr g, Add (Argument (fn_id F) 0) (Argument (fn_id F) 1)),
                  (NextAddr g + 1, Ret (InstructionV (NextAddr g) I32))]]\<rparr>)
         \<and> function_names (snd (FunctionAST_codegen foo_def g)) = function_names g
         \<and> stderr (snd (FunctionAST_codegen foo_def g)) = stderr g"
  proof (intro allI impI)
  fix F
  assume f: "getFunction g ''foo'' = Some F \<and> fn_args F = [''a'', ''b'']"
  let ?fid = "fn_id F" and ?bb = "length (fn_blocks F)" and ?n = "NextAddr g"
  let ?body = "BinaryExprAST CHR ''+'' (VariableExprAST ''a'') (VariableExprAST ''b'')"
  let ?Fn = "FunctionAST (PrototypeAST ''foo'' [''a'', ''b'']) ?body"
  have Fn: "foo_def = ?Fn" by (simp add: foo_def_def foo_proto_def)
  let ?g4 = "entry_state ?Fn g"
  have g4: "?g4 = g\<lparr>TheModule := update_fn ?fid (\<lambda>F'. F'\<lparr>fn_blocks := fn_blocks F' @ [[]]\<rparr>) (TheModule g),
               InsertPoint := Some (?fid, ?bb),
               NamedValues := bind_args ?fid 0 (fn_args F) Map.empty\<rparr>"
    using f by (simp add: entry_state_existing)
  let ?h1 = "\<lambda>F'. F'\<lparr>fn_blocks := fn_blocks F' @ [[]]\<rparr>"
  let ?h2 = "append_to_block ?bb (?n, Add (Argument ?fid 0) (Argument ?fid 1))"
  let ?h3 = "append_to_block ?bb (?n + 1, Ret (InstructionV ?n I32))"
  let ?M = "update_fn ?fid ?h3 (update_fn ?fid ?h2 (update_fn ?fid ?h1 (TheModule g)))"
  have body: "ExprAST_codegen ?body ?g4
      = (Some (InstructionV ?n I32),
         ?g4\<lparr>NextAddr := ?n + 1, TheModule := update_fn ?fid ?h2 (TheModule ?g4)\<rparr>)"
    using f by (simp add: g4 CreateAdd_def Insert_def Let_def)
  have "FunctionAST_codegen ?Fn g =
      (case ExprAST_codegen ?body ?g4 of
         (Some RetVal, g5) \<Rightarrow> (Some F, CreateRet RetVal g5)
       | (None, g5) \<Rightarrow> (None, eraseFromParent F g5))"
    using f by (simp add: FunctionAST_codegen_entry del: ExprAST_codegen.simps)
  also have "\<dots> = (Some F, ?g4\<lparr>NextAddr := ?n + 2, TheModule := ?M\<rparr>)"
    unfolding body by (simp add: CreateRet_def Insert_def Let_def g4)
  finally have res: "FunctionAST_codegen foo_def g =
      (Some F, ?g4\<lparr>NextAddr := ?n + 2, TheModule := ?M\<rparr>)"
    unfolding Fn .
  have F: "find (\<lambda>F. fn_name F = ''foo'') (TheModule g) = Some F"
    using f by (simp add: getFunction_def)
  have "getFunction (snd (FunctionAST_codegen foo_def g)) ''foo'' = Some (?h3 (?h2 (?h1 F)))"
    unfolding res
    using find_update_fn [of "?h3" "''foo''" ?fid]
      find_update_fn [of "?h2" "''foo''" ?fid] find_update_fn [of "?h1" "''foo''" ?fid]
    by (simp add: getFunction_def fn_name_append_to_block fn_id_append_to_block F)
  moreover have "?h3 (?h2 (?h1 F)) = F\<lparr>fn_blocks := fn_blocks F @
                [[(?n, Add (Argument ?fid 0) (Argument ?fid 1)), (?n + 1, Ret (InstructionV ?n I32))]]\<rparr>"
    by (simp add: append_to_block_def)
  moreover have "function_names (snd (FunctionAST_codegen foo_def g)) = function_names g"
    unfolding res
    by (simp add: function_names_def map_fn_name_update_fn fn_name_append_to_block)
  moreover have "stderr (snd (FunctionAST_codegen foo_def g)) = stderr g"
    unfolding res by (simp add: g4)
  ultimately show "fst (FunctionAST_codegen foo_def g) = Some F
         \<and> getFunction (snd (FunctionAST_codegen foo_def g)) ''foo''
            = Some (F\<lparr>fn_blocks := fn_blocks F @
                [[(NextAddr g, Add (Argument (fn_id F) 0) (Argument (fn_id F) 1)),
                  (NextAddr g + 1, Ret (InstructionV (NextAddr g) I32))]]\<rparr>)
         \<and> function_names (snd (FunctionAST_codegen foo_def g)) = function_names g
         \<and> stderr (snd (FunctionAST_codegen foo_def g)) = stderr g"
    by (simp add: res)
qed
qed

theorem extern_then_def_foo_witness:
  "getFunction (startup []) ''foo'' = None \<and> ids_below_NextAddr (startup [])
   \<and> getFunction (snd (PrototypeAST_codegen foo_proto (startup []))) ''foo''
       = Some \<lparr>fn_id = 0, fn_name = ''foo'', fn_args = [''a'', ''b''], fn_blocks = []\<rparr>
   \<and> getFunction foo_declared ''foo''
       = Some \<lparr>fn_id = 0, fn_name = ''foo'', fn_args = [''a'', ''b''], fn_blocks = []\<rparr>
   \<and> fst (FunctionAST_codegen foo_def foo_declared)
       = Some \<lparr>fn_id = 0, fn_name = ''foo'', fn_args = [''a'', ''b''], fn_blocks = []\<rparr>
   \<and> getFunction (snd (FunctionAST_codegen foo_def foo_declared)) ''foo''
       = Some \<lparr>fn_id = 0, fn_name = ''foo'', fn_args = [''a'', ''b''],
           fn_blocks = [[(1, Add (Argument 0 0) (Argument 0 1)), (2, Ret (InstructionV 1 I32))]]\<rparr>
   \<and> function_names (snd (FunctionAST_codegen foo_def foo_declared)) = [''foo'']
   \<and> stderr (snd (FunctionAST_codegen foo_def foo_declared)) = []
   \<and> map_option TheModule (main 20 ''extern foo(a b) def foo(a b) a+b'')
       = Some [\<lparr>fn_id = 0, fn_name = ''foo'', fn_args = [''a'', ''b''],
           fn_blocks = [[(1, Add (Argument 0 0) (Argument 0 1)), (2, Ret (InstructionV 1 I32))]]\<rparr>]
   \<and> map_option stderr (main 20 ''extern foo(a b) def foo(a b) a+b'') = Some []"
proof -
  let ?F = "\<lparr>fn_id = 0, fn_name = ''foo'', fn_args = [''a'', ''b''], fn_blocks = []\<rparr>"
  have a: "getFunction (startup []) ''foo'' = None \<and> ids_below_NextAddr (startup [])"
    by (simp add: getFunction_def ids_below_NextAddr_def startup_def)
  have b: "getFunction foo_declared ''foo'' = Some ?F \<and> fn_args ?F = [''a'', ''b'']"
    by (simp add: getFunction_def foo_declared_def)
  have n: "NextAddr (startup []) = 0" "NextAddr foo_declared = 1"
    "function_names foo_declared = [''foo'']" "stderr foo_declared = []"
    by (simp_all add: startup_def foo_declared_def function_names_def)
  have r: "map_option TheModule (main 20 ''extern foo(a b) def foo(a b) a+b'')
       = Some [\<lparr>fn_id = 0, fn_name = ''foo'', fn_args = [''a'', ''b''],
           fn_blocks = [[(1, Add (Argument 0 0) (Argument 0 1)), (2, Ret (InstructionV 1 I32))]]\<rparr>]"
    "map_option stderr (main 20 ''extern foo(a b) def foo(a b) a+b'') = Some []"
    by code_simp+
  from extern_then_def_foo [of "startup []", THEN conjunct1, THEN mp, OF a]
  have 1: "getFunction (snd (PrototypeAST_codegen foo_proto (startup []))) ''foo'' = Some ?F"
    by (simp add: n)
  from extern_then_def_foo [of foo_declared, THEN conjunct2, THEN spec, THEN mp, OF b]
  have 2: "fst (FunctionAST_codegen foo_def foo_declared) = Some ?F
     \<and> getFunction (snd (FunctionAST_codegen foo_def foo_declared)) ''foo''
       = Some \<lparr>fn_id = 0, fn_name = ''foo'', fn_args = [''a'', ''b''],
           fn_blocks = [[(1, Add (Argument 0 0) (Argument 0 1)), (2, Ret (InstructionV 1 I32))]]\<rparr>
     \<and> function_names (snd (FunctionAST_codegen foo_def foo_declared)) = [''foo'']
     \<and> stderr (snd (FunctionAST_codegen foo_def foo_declared)) = []"
    by (simp add: n)
  from a b 1 2 r show ?thesis by simp
qed

text \<open>In a run where \<open>foo\<close> is already defined with another parameter, the function
  that \<^verbatim>\<open>extern foo(a b)\<close> declares is named \<open>foo.1\<close>; the definition that follows
  finds the old \<open>foo\<close>, fails on the unknown variables and erases it.\<close>

theorem extern_then_def_foo_counterexample:
  "map_option function_names (main 20 ''def foo(x) x extern foo(a b) def foo(a b) a+b'')
     = Some [''foo.1'']
   \<and> map_option stderr (main 20 ''def foo(x) x extern foo(a b) def foo(a b) a+b'')
     = Some [''Unknown variable name'', ''Unknown variable name'']"
  by code_simp

section \<open>Operators that reach the code generator\<close>

subsection \<open>The lexer leaves the rest of the state alone\<close>

lemma BinopPrecedence_getchar: "BinopPrecedence (getchar g) = BinopPrecedence g"
  by (simp add: getchar_def split: list.splits)

lemma BinopPrecedence_skip_whitespace: "BinopPrecedence (skip_whitespace g) = BinopPrecedence g"
  by (induction g rule: skip_whitespace.induct)
    (subst skip_whitespace.simps, simp add: BinopPrecedence_getchar)

lemma BinopPrecedence_read_identifier: "BinopPrecedence (read_identifier g) = BinopPrecedence g"
  by (induction g rule: read_identifier.induct)
    (subst read_identifier.simps, simp add: BinopPrecedence_getchar Let_def)

lemma BinopPrecedence_read_number: "BinopPrecedence (snd (read_number s g)) = BinopPrecedence g"
  by (induction s g rule: read_number.induct)
    (subst read_number.simps, simp add: BinopPrecedence_getchar Let_def)

lemma BinopPrecedence_getok: "BinopPrecedence (snd (getok g)) = BinopPrecedence g"
  using BinopPrecedence_read_number [of "[]" "skip_whitespace g"]
  by (auto simp add: getok_def Let_def BinopPrecedence_skip_whitespace BinopPrecedence_read_identifier
      BinopPrecedence_getchar split: prod.splits)

lemma BinopPrecedence_getNextToken: "BinopPrecedence (getNextToken g) = BinopPrecedence g"
  using BinopPrecedence_getok [of g] by (auto simp add: getNextToken_def split: prod.splits)

lemma table_within_getNextToken [simp]: "table_within (getNextToken g) = table_within g"
  by (simp add: table_within_def BinopPrecedence_getNextToken)

lemma table_within_LogError [simp]: "table_within (LogError s g) = table_within g"
  by (simp add: table_within_def LogError_def)

lemma GetTokPrecedence_ge: "- 1 \<le> GetTokPrecedence g"
  by (simp add: GetTokPrecedence_def Let_def)

lemma GetTokPrecedence_operator:
  assumes "table_within g" and "\<not> GetTokPrecedence g < p" and "0 \<le> p"
  shows "char_of (CurTok g) \<in> {CHR ''<'', CHR ''+'', CHR ''-'', CHR ''*''}"
proof -
  from assms(2,3) have "0 \<le> GetTokPrecedence g" by simp
  then have "BinopPrecedence g (char_of (CurTok g)) \<noteq> None"
    by (auto simp: GetTokPrecedence_def Let_def split: if_splits option.splits)
  then have "char_of (CurTok g) \<in> dom (BinopPrecedence g)" by auto
  with assms(1) show ?thesis unfolding table_within_def by blast
qed

subsection \<open>The operators of a parsed expression\<close>

lemma parser_known_binops:
  "(\<forall>g e g'. table_within g \<longrightarrow> ParseExpression n g = Some (Some e, g') \<longrightarrow>
        known_binops e \<and> table_within g')
   \<and> (\<forall>g e g'. table_within g \<longrightarrow> ParsePrimary n g = Some (Some e, g') \<longrightarrow>
        known_binops e \<and> table_within g')
   \<and> (\<forall>g e g'. table_within g \<longrightarrow> ParseParenExpr n g = Some (Some e, g') \<longrightarrow>
        known_binops e \<and> table_within g')
   \<and> (\<forall>g e g'. table_within g \<longrightarrow> ParseIdentifierExpr n g = Some (Some e, g') \<longrightarrow>
        known_binops e \<and> table_within g')
   \<and> (\<forall>g Args es g'. table_within g \<longrightarrow> list_all known_binops Args \<longrightarrow>
        ParseCallArgs n Args g = Some (Some es, g') \<longrightarrow>
        list_all known_binops es \<and> table_within g')
   \<and> (\<forall>g p LHS e g'. table_within g \<longrightarrow> 0 \<le> p \<longrightarrow> known_binops LHS \<longrightarrow>
        ParseBinOpRHS n p LHS g = Some (Some e, g') \<longrightarrow>
        known_binops e \<and> table_within g')"
proof (induction n)
  case 0
  show ?case by simp
next
  case (Suc n)
  note expr = Suc [THEN conjunct1, rule_format]
  note prim = Suc [THEN conjunct2, THEN conjunct1, rule_format]
  note paren = Suc [THEN conjunct2, THEN conjunct2, THEN conjunct1, rule_format]
  note ident = Suc [THEN conjunct2, THEN conjunct2, THEN conjunct2, THEN conjunct1, rule_format]
  note args = Suc [THEN conjunct2, THEN conjunct2, THEN conjunct2, THEN conjunct2, THEN conjunct1,
      rule_format]
  note binop = Suc [THEN conjunct2, THEN conjunct2, THEN conjunct2, THEN conjunct2, THEN conjunct2,
      rule_format]
  have 1: "known_binops e \<and> table_within g'"
    if "table_within g" "ParseExpression (Suc n) g = Some (Some e, g')" for g e g'
  proof -
    from that(2) obtain LHS g1 where p: "ParsePrimary n g = Some (Some LHS, g1)"
      and b: "ParseBinOpRHS n 0 LHS g1 = Some (Some e, g')"
      by (auto split: option.splits)
    from prim [OF that(1) p] have "known_binops LHS" "table_within g1" by simp_all
    then show ?thesis using binop [OF _ _ _ b] by simp
  qed
  have 2: "known_binops e \<and> table_within g'"
    if "table_within g" "ParsePrimary (Suc n) g = Some (Some e, g')" for g e g'
    using that ident [of g e g'] paren [of g e g']
    by (auto simp: ParseNumberExpr_def split: if_splits)
  have 3: "known_binops e \<and> table_within g'"
    if "table_within g" "ParseParenExpr (Suc n) g = Some (Some e, g')" for g e g'
    using that expr [of "getNextToken g" e]
    by (auto simp: Let_def split: option.splits if_splits)
  have 4: "known_binops e \<and> table_within g'"
    if "table_within g" "ParseIdentifierExpr (Suc n) g = Some (Some e, g')" for g e g'
    using that args [of "getNextToken (getNextToken g)" "[]"]
    by (auto simp: Let_def split: option.splits if_splits)
  have 5: "list_all known_binops es \<and> table_within g'"
    if "table_within g" "list_all known_binops Args" "ParseCallArgs (Suc n) Args g = Some (Some es, g')"
    for g Args es g'
  proof -
    from that(3) obtain ArgE g1 where p: "ParseExpression n g = Some (Some ArgE, g1)"
      by (auto split: option.splits)
    from expr [OF that(1) p] have k: "known_binops ArgE" "table_within g1" by simp_all
    with that(2) have l: "list_all known_binops (Args @ [ArgE])" by simp
    show ?thesis
      using that(3) p k l args [of "getNextToken g1" "Args @ [ArgE]" es g']
      by (auto split: if_splits)
  qed
  have 6: "known_binops e \<and> table_within g'"
    if t: "table_within g" and p0: "0 \<le> p" and l: "known_binops LHS"
      and r: "ParseBinOpRHS (Suc n) p LHS g = Some (Some e, g')" for g p LHS e g'
  proof (cases "GetTokPrecedence g < p")
    case True
    with r t l show ?thesis by (simp add: Let_def)
  next
    case False
    then have op: "char_of (CurTok g) \<in> {CHR ''<'', CHR ''+'', CHR ''-'', CHR ''*''}"
      using t p0 by (intro GetTokPrecedence_operator)
    from r False obtain RHS g2 where pr: "ParsePrimary n (getNextToken g) = Some (Some RHS, g2)"
      by (auto simp: Let_def split: option.splits)
    from prim [OF _ pr] t have k: "known_binops RHS" "table_within g2" by simp_all
    show ?thesis
    proof (cases "GetTokPrecedence g < GetTokPrecedence g2")
      case True
      with r False pr obtain RHS' g3
        where b1: "ParseBinOpRHS n (GetTokPrecedence g + 1) RHS g2 = Some (Some RHS', g3)"
          and b2: "ParseBinOpRHS n p (BinaryExprAST (char_of (CurTok g)) LHS RHS') g3 = Some (Some e, g')"
        by (auto simp: Let_def split: option.splits)
      have "0 \<le> GetTokPrecedence g + 1" using GetTokPrecedence_ge [of g] by simp
      from binop [OF k(2) this k(1) b1] have k': "known_binops RHS'" "table_within g3" by simp_all
      show ?thesis
        using binop [OF k'(2) p0 _ b2] op l k'(1) by simp
    next
      case nlt: False
      with r False pr
      have b2: "ParseBinOpRHS n p (BinaryExprAST (char_of (CurTok g)) LHS RHS) g2 = Some (Some e, g')"
        by (auto simp: Let_def split: option.splits)
      show ?thesis
        using binop [OF k(2) p0 _ b2] op l k(1) by simp
    qed
  qed
  from 1 2 3 4 5 6 show ?case by blast
qed

lemma stderr_Insert: "stderr (snd (Insert ty I g)) = stderr g"
  by (simp add: Insert_def Let_def split: option.splits)

lemma stderr_build: "stderr (snd (build ty I g)) = stderr g"
  by (simp add: build_def stderr_Insert split: option.splits)

lemma stderr_emit: "stderr (snd (emit ty I g)) = stderr g"
  using stderr_build [of ty I g] by (auto simp: emit_def split: prod.splits)

lemma codegen_no_invalid_operator:
  "known_binops e \<Longrightarrow> ''invalid binary operator'' \<notin> set (stderr g) \<Longrightarrow>
     ''invalid binary operator'' \<notin> set (stderr (snd (ExprAST_codegen e g)))"
  "list_all known_binops es \<Longrightarrow> ''invalid binary operator'' \<notin> set (stderr g) \<Longrightarrow>
     ''invalid binary operator'' \<notin> set (stderr (snd (codegen_args es vs g)))"
proof (induction e g and es vs g rule: ExprAST_codegen_codegen_args.induct)
  case (1 Val g)
  then show ?case by simp
next
  case (2 Name g)
  then show ?case by (simp add: LogErrorV_def LogError_def split: option.splits)
next
  case (3 Op LHS RHS g)
  obtain L g1 where l: "ExprAST_codegen LHS g = (L, g1)" by (cases "ExprAST_codegen LHS g")
  obtain R g2 where r: "ExprAST_codegen RHS g1 = (R, g2)" by (cases "ExprAST_codegen RHS g1")
  from 3(3) have k: "known_binops LHS" "known_binops RHS"
    and op: "Op = CHR ''+'' \<or> Op = CHR ''-'' \<or> Op = CHR ''*'' \<or> Op = CHR ''<''"
    by auto
  have e1: "''invalid binary operator'' \<notin> set (stderr g1)"
    using 3(1) [OF k(1) 3(4)] l by simp
  have e2: "''invalid binary operator'' \<notin> set (stderr g2)"
    using 3(2) [OF l [symmetric] refl k(2) e1] r by simp
  have "stderr (snd (let (c, g3) = build I1 (ICmpULT l' r') g2 in emit I32 (ZExt c) g3)) = stderr g2"
    for l' r'
    using stderr_build [of I1 "ICmpULT l' r'" g2]
    by (auto simp: stderr_emit split: prod.splits)
  then show ?case
    unfolding BinaryExprAST_codegen_build
    using op e2 by (auto simp add: l r stderr_emit split: option.splits)
next
  case (4 Callee Args g)
  show ?case
  proof (cases "getFunction g Callee")
    case None
    then show ?thesis using 4(3) by (simp add: LogErrorV_def LogError_def)
  next
    case (Some CalleeF)
    show ?thesis
    proof (cases "length (fn_args CalleeF) \<noteq> length Args")
      case True
      then show ?thesis using Some 4(3) by (simp add: LogErrorV_def LogError_def)
    next
      case False
      obtain A g1 where a: "codegen_args Args [] g = (A, g1)" by (cases "codegen_args Args [] g")
      have e1: "''invalid binary operator'' \<notin> set (stderr g1)"
        using 4(1) [OF Some _ _ 4(3)] 4(2) False a by simp
      have "stderr (snd (CreateCall CalleeF ArgsV g1)) = stderr g1" for ArgsV
        by (simp add: CreateCall_def stderr_Insert)
      with e1 have "''invalid binary operator'' \<notin> set (stderr (snd (CreateCall CalleeF ArgsV g1)))"
        for ArgsV by simp
      then show ?thesis
        using Some False a e1 by (cases A) (simp_all add: case_prod_beta)
    qed
  qed
next
  case (5 ArgsV g)
  then show ?case by simp
next
  case (6 A Args ArgsV g)
  obtain V g1 where v: "ExprAST_codegen A g = (V, g1)" by (cases "ExprAST_codegen A g")
  from 6(3) have k: "known_binops A" "list_all known_binops Args" by simp_all
  have e1: "''invalid binary operator'' \<notin> set (stderr g1)"
    using 6(1) [OF k(1) 6(4)] v by simp
  show ?case
  proof (cases V)
    case None
    then show ?thesis using v e1 by simp
  next
    case (Some V')
    then show ?thesis using 6(2) [OF v [symmetric] _ k(2) e1] v by simp
  qed
qed

text \<open>
  Claim C9. When the precedence table has no keys but \<^verbatim>\<open><\<close>, \<^verbatim>\<open>+\<close>, \<^verbatim>\<open>-\<close> and \<^verbatim>\<open>*\<close>,
  every binary operation in an expression that \<^verbatim>\<open>ParseExpression\<close> returns has one of
  these four operators; and generating code for such an expression, in any state, never
  writes the message \<^verbatim>\<open>invalid binary operator\<close>.
\<close>

theorem parser_binops_known:
  assumes "dom (BinopPrecedence g) \<subseteq> {CHR ''<'', CHR ''+'', CHR ''-'', CHR ''*''}"
    and "ParseExpression n g = Some (Some e, g')"
  shows "known_binops e
     \<and> (\<forall>c. ''invalid binary operator'' \<notin> set (stderr c) \<longrightarrow>
           ''invalid binary operator'' \<notin> set (stderr (snd (ExprAST_codegen e c))))"
proof -
  have "table_within g" using assms(1) by (simp add: table_within_def)
  from parser_known_binops [THEN conjunct1, rule_format, OF this assms(2)]
  have "known_binops e" by simp
  then show ?thesis by (simp add: codegen_no_invalid_operator)
qed

theorem parser_binops_known_witness:
  "dom (BinopPrecedence (getNextToken (main_BinopPrecedence (startup ''x * f(1 - 2, y) < (3 + z) @ 1''))))
      \<subseteq> {CHR ''<'', CHR ''+'', CHR ''-'', CHR ''*''}
   \<and> map_option fst (ParseExpression 20
        (getNextToken (main_BinopPrecedence (startup ''x * f(1 - 2, y) < (3 + z) @ 1''))))
      = Some (Some (BinaryExprAST CHR ''<''
          (BinaryExprAST CHR ''*'' (VariableExprAST ''x'')
             (CallExprAST ''f'' [BinaryExprAST CHR ''-'' (NumberExprAST (Finite 1)) (NumberExprAST (Finite 2)),
                VariableExprAST ''y'']))
          (BinaryExprAST CHR ''+'' (NumberExprAST (Finite 3)) (VariableExprAST ''z''))))
   \<and> known_binops (BinaryExprAST CHR ''<''
          (BinaryExprAST CHR ''*'' (VariableExprAST ''x'')
             (CallExprAST ''f'' [BinaryExprAST CHR ''-'' (NumberExprAST (Finite 1)) (NumberExprAST (Finite 2)),
                VariableExprAST ''y'']))
          (BinaryExprAST CHR ''+'' (NumberExprAST (Finite 3)) (VariableExprAST ''z'')))
   \<and> ''invalid binary operator'' \<notin> set (stderr (snd (ExprAST_codegen (BinaryExprAST CHR ''<''
          (BinaryExprAST CHR ''*'' (VariableExprAST ''x'')
             (CallExprAST ''f'' [BinaryExprAST CHR ''-'' (NumberExprAST (Finite 1)) (NumberExprAST (Finite 2)),
                VariableExprAST ''y'']))
          (BinaryExprAST CHR ''+'' (NumberExprAST (Finite 3)) (VariableExprAST ''z''))) example_state)))"
proof -
  let ?g = "getNextToken (main_BinopPrecedence (startup ''x * f(1 - 2, y) < (3 + z) @ 1''))"
  let ?e = "BinaryExprAST CHR ''<''
          (BinaryExprAST CHR ''*'' (VariableExprAST ''x'')
             (CallExprAST ''f'' [BinaryExprAST CHR ''-'' (NumberExprAST (Finite 1)) (NumberExprAST (Finite 2)),
                VariableExprAST ''y'']))
          (BinaryExprAST CHR ''+'' (NumberExprAST (Finite 3)) (VariableExprAST ''z''))"
  have d: "dom (BinopPrecedence ?g) \<subseteq> {CHR ''<'', CHR ''+'', CHR ''-'', CHR ''*''}"
    by (simp add: BinopPrecedence_getNextToken main_BinopPrecedence_def startup_def)
  have p: "map_option fst (ParseExpression 20 ?g) = Some (Some ?e)"
    by code_simp
  then obtain g' where p': "ParseExpression 20 ?g = Some (Some ?e, g')"
    by (cases "ParseExpression 20 ?g") auto
  have s: "''invalid binary operator'' \<notin> set (stderr example_state)"
    by (simp add: example_state_def startup_def)
  from parser_binops_known [OF d p'] s
  have "known_binops ?e \<and> ''invalid binary operator'' \<notin> set (stderr (snd (ExprAST_codegen ?e example_state)))"
    by blast
  with d p show ?thesis by simp
qed

section \<open>Operator precedence\<close>

lemma parser_fuel_mono:
  "(\<forall>m g r. n \<le> m \<longrightarrow> ParseExpression n g = Some r \<longrightarrow> ParseExpression m g = Some r)
   \<and> (\<forall>m g r. n \<le> m \<longrightarrow> ParsePrimary n g = Some r \<longrightarrow> ParsePrimary m g = Some r)
   \<and> (\<forall>m g r. n \<le> m \<longrightarrow> ParseParenExpr n g = Some r \<longrightarrow> ParseParenExpr m g = Some r)
   \<and> (\<forall>m g r. n \<le> m \<longrightarrow> ParseIdentifierExpr n g = Some r \<longrightarrow> ParseIdentifierExpr m g = Some r)
   \<and> (\<forall>m g Args r. n \<le> m \<longrightarrow> ParseCallArgs n Args g = Some r \<longrightarrow> ParseCallArgs m Args g = Some r)
   \<and> (\<forall>m g p LHS r. n \<le> m \<longrightarrow> ParseBinOpRHS n p LHS g = Some r \<longrightarrow>
         ParseBinOpRHS m p LHS g = Some r)"
proof (induction n)
  case 0
  show ?case by simp
next
  case (Suc n)
  note expr = Suc [THEN conjunct1, rule_format]
  note prim = Suc [THEN conjunct2, THEN conjunct1, rule_format]
  note paren = Suc [THEN conjunct2, THEN conjunct2, THEN conjunct1, rule_format]
  note ident = Suc [THEN conjunct2, THEN conjunct2, THEN conjunct2, THEN conjunct1, rule_format]
  note args = Suc [THEN conjunct2, THEN conjunct2, THEN conjunct2, THEN conjunct2, THEN conjunct1,
      rule_format]
  note binop = Suc [THEN conjunct2, THEN conjunct2, THEN conjunct2, THEN conjunct2, THEN conjunct2,
      rule_format]
  have 1: "ParseExpression m g = Some r"
    if "Suc n \<le> m" "ParseExpression (Suc n) g = Some r" for m g r
  proof -
    from that(1) obtain m' where m: "m = Suc m'" "n \<le> m'" by (cases m) auto
    show ?thesis
      using that(2) unfolding m
      by (auto split: option.splits dest!: prim [OF m(2)] binop [OF m(2)])
  qed
  have 2: "ParsePrimary m g = Some r"
    if "Suc n \<le> m" "ParsePrimary (Suc n) g = Some r" for m g r
  proof -
    from that(1) obtain m' where m: "m = Suc m'" "n \<le> m'" by (cases m) auto
    show ?thesis
      using that(2) unfolding m
      by (auto split: if_splits dest!: ident [OF m(2)] paren [OF m(2)])
  qed
  have 3: "ParseParenExpr m g = Some r"
    if "Suc n \<le> m" "ParseParenExpr (Suc n) g = Some r" for m g r
  proof -
    from that(1) obtain m' where m: "m = Suc m'" "n \<le> m'" by (cases m) auto
    show ?thesis
      using that(2) unfolding m
      by (auto simp: Let_def split: option.splits if_splits dest!: expr [OF m(2)])
  qed
  have 4: "ParseIdentifierExpr m g = Some r"
    if "Suc n \<le> m" "ParseIdentifierExpr (Suc n) g = Some r" for m g r
  proof -
    from that(1) obtain m' where m: "m = Suc m'" "n \<le> m'" by (cases m) auto
    show ?thesis
      using that(2) unfolding m
      by (auto simp: Let_def split: option.splits if_splits dest!: args [OF m(2)])
  qed
  have 5: "ParseCallArgs m Args g = Some r"
    if "Suc n \<le> m" "ParseCallArgs (Suc n) Args g = Some r" for m g Args r
  proof -
    from that(1) obtain m' where m: "m = Suc m'" "n \<le> m'" by (cases m) auto
    show ?thesis
      using that(2) unfolding m
      by (auto split: option.splits if_splits dest!: expr [OF m(2)] args [OF m(2)])
  qed
  have 6: "ParseBinOpRHS m p LHS g = Some r"
    if "Suc n \<le> m" "ParseBinOpRHS (Suc n) p LHS g = Some r" for m g p LHS r
  proof -
    from that(1) obtain m' where m: "m = Suc m'" "n \<le> m'" by (cases m) auto
    show ?thesis
      using that(2) unfolding m
      by (auto simp: Let_def split: option.splits if_splits dest!: prim [OF m(2)] binop [OF m(2)])
  qed
  show ?case by (intro conjI allI impI) (rule 1 2 3 4 5 6; assumption)+
qed

lemmas ParsePrimary_fuel_mono = parser_fuel_mono [THEN conjunct2, THEN conjunct1, rule_format]
lemmas ParseBinOpRHS_fuel_mono = parser_fuel_mono [THEN conjunct2, THEN conjunct2, THEN conjunct2,
    THEN conjunct2, THEN conjunct2, rule_format]
lemmas ParseExpression_fuel_mono = parser_fuel_mono [THEN conjunct1, rule_format]

lemma BinopPrecedence_LogError [simp]: "BinopPrecedence (LogError s g) = BinopPrecedence g"
  by (simp add: LogError_def)

lemma parser_BinopPrecedence:
  "(\<forall>g r g'. ParseExpression n g = Some (r, g') \<longrightarrow> BinopPrecedence g' = BinopPrecedence g)
   \<and> (\<forall>g r g'. ParsePrimary n g = Some (r, g') \<longrightarrow> BinopPrecedence g' = BinopPrecedence g)
   \<and> (\<forall>g r g'. ParseParenExpr n g = Some (r, g') \<longrightarrow> BinopPrecedence g' = BinopPrecedence g)
   \<and> (\<forall>g r g'. ParseIdentifierExpr n g = Some (r, g') \<longrightarrow> BinopPrecedence g' = BinopPrecedence g)
   \<and> (\<forall>g Args r g'. ParseCallArgs n Args g = Some (r, g') \<longrightarrow> BinopPrecedence g' = BinopPrecedence g)
   \<and> (\<forall>g p LHS r g'. ParseBinOpRHS n p LHS g = Some (r, g') \<longrightarrow>
         BinopPrecedence g' = BinopPrecedence g)"
proof (induction n)
  case 0
  show ?case by simp
next
  case (Suc n)
  note expr = Suc [THEN conjunct1, rule_format]
  note prim = Suc [THEN conjunct2, THEN conjunct1, rule_format]
  note paren = Suc [THEN conjunct2, THEN conjunct2, THEN conjunct1, rule_format]
  note ident = Suc [THEN conjunct2, THEN conjunct2, THEN conjunct2, THEN conjunct1, rule_format]
  note args = Suc [THEN conjunct2, THEN conjunct2, THEN conjunct2, THEN conjunct2, THEN conjunct1,
      rule_format]
  note binop = Suc [THEN conjunct2, THEN conjunct2, THEN conjunct2, THEN conjunct2, THEN conjunct2,
      rule_format]
  have 1: "BinopPrecedence g' = BinopPrecedence g"
    if "ParseExpression (Suc n) g = Some (r, g')" for g r g'
    using that by (auto split: option.splits dest!: prim binop)
  have 2: "BinopPrecedence g' = BinopPrecedence g"
    if "ParsePrimary (Suc n) g = Some (r, g')" for g r g'
    using that
    by (auto simp: ParseNumberExpr_def BinopPrecedence_getNextToken split: if_splits
        dest!: ident paren)
  have 3: "BinopPrecedence g' = BinopPrecedence g"
    if "ParseParenExpr (Suc n) g = Some (r, g')" for g r g'
    using that
    by (auto simp: Let_def BinopPrecedence_getNextToken split: option.splits if_splits dest!: expr)
  have 4: "BinopPrecedence g' = BinopPrecedence g"
    if "ParseIdentifierExpr (Suc n) g = Some (r, g')" for g r g'
    using that
    by (auto simp: Let_def BinopPrecedence_getNextToken split: option.splits if_splits dest!: args)
  have 5: "BinopPrecedence g' = BinopPrecedence g"
    if "ParseCallArgs (Suc n) Args g = Some (r, g')" for g Args r g'
    using that
    by (auto simp: BinopPrecedence_getNextToken split: option.splits if_splits dest!: expr args)
  have 6: "BinopPrecedence g' = BinopPrecedence g"
    if "ParseBinOpRHS (Suc n) p LHS g = Some (r, g')" for g p LHS r g'
    using that
    by (auto simp: Let_def BinopPrecedence_getNextToken split: option.splits if_splits
        dest!: prim binop)
  show ?case by (intro conjI allI impI) (rule 1 2 3 4 5 6; assumption)+
qed

lemmas ParsePrimary_BinopPrecedence =
  parser_BinopPrecedence [THEN conjunct2, THEN conjunct1, rule_format]

lemma node_ops_simps [simp]:
  "node_ops (Leaf e) = []"
  "node_ops (Node Op l r) = node_ops l @ Op # node_ops r"
  by (simp_all add: node_ops_def)

lemma GetTokPrecedence_nonneg:
  assumes "0 \<le> GetTokPrecedence g"
  shows "0 < GetTokPrecedence g"
    and "GetTokPrecedence g = prec_of (BinopPrecedence g) (char_of (CurTok g))"
  using assms by (auto simp: GetTokPrecedence_def prec_of_def Let_def split: if_splits)

lemma operand_chain_append:
  "operand_chain n g (xs @ ys) = (case operand_chain n g xs of None \<Rightarrow> None
     | Some mid \<Rightarrow> operand_chain n mid ys)"
  by (induction xs arbitrary: g) (auto split: option.splits)

lemma operand_chain_BinopPrecedence:
  "operand_chain n g items = Some g' \<Longrightarrow> BinopPrecedence g' = BinopPrecedence g"
proof (induction items arbitrary: g)
  case Nil
  then show ?case by simp
next
  case (Cons x items)
  obtain Op e where x: "x = (Op, e)" by (cases x)
  from Cons.prems obtain g1 where p: "ParsePrimary n (getNextToken g) = Some (Some e, g1)"
    and c: "operand_chain n g1 items = Some g'"
    unfolding x by (auto split: if_splits option.splits)
  from ParsePrimary_BinopPrecedence [OF p] Cons.IH [OF c] show ?case
    by (simp add: BinopPrecedence_getNextToken)
qed

lemma climb:
  "\<forall>p lhs g items g'.
     operand_chain n g items = Some g' \<longrightarrow> GetTokPrecedence g' < 0 \<longrightarrow> n + length items < k \<longrightarrow>
     0 \<le> p \<longrightarrow> wellprec (prec_of (BinopPrecedence g)) lhs \<longrightarrow>
     (\<forall>o'\<in>set (node_ops lhs). GetTokPrecedence g \<le> prec_of (BinopPrecedence g) o') \<longrightarrow>
     (\<exists>t taken rest mid.
        ParseBinOpRHS k p (expr_of lhs) g = Some (Some (expr_of t), mid)
        \<and> items = taken @ rest
        \<and> operand_chain n g taken = Some mid \<and> operand_chain n mid rest = Some g'
        \<and> GetTokPrecedence mid < p
        \<and> first_operand t = first_operand lhs
        \<and> rest_operands t = rest_operands lhs @ taken
        \<and> wellprec (prec_of (BinopPrecedence g)) t
        \<and> (\<forall>o'\<in>set (map fst taken). p \<le> prec_of (BinopPrecedence g) o'))"
proof (induction k)
  case 0
  show ?case by simp
next
  case (Suc k)
  show ?case
  proof (intro allI impI)
    fix p :: int and lhs :: optree and g g' :: globals and items :: "(char \<times> ExprAST) list"
    assume chain: "operand_chain n g items = Some g'" and fin: "GetTokPrecedence g' < 0"
      and fuel: "n + length items < Suc k" and p0: "0 \<le> p"
      and wl: "wellprec (prec_of (BinopPrecedence g)) lhs"
      and bl: "\<forall>o'\<in>set (node_ops lhs). GetTokPrecedence g \<le> prec_of (BinopPrecedence g) o'"
    let ?pr = "prec_of (BinopPrecedence g)"
    let ?goal = "\<exists>t taken rest mid.
        ParseBinOpRHS (Suc k) p (expr_of lhs) g = Some (Some (expr_of t), mid)
        \<and> items = taken @ rest
        \<and> operand_chain n g taken = Some mid \<and> operand_chain n mid rest = Some g'
        \<and> GetTokPrecedence mid < p
        \<and> first_operand t = first_operand lhs
        \<and> rest_operands t = rest_operands lhs @ taken
        \<and> wellprec ?pr t
        \<and> (\<forall>o'\<in>set (map fst taken). p \<le> ?pr o')"
    show ?goal
    proof (cases "GetTokPrecedence g < p")
      case True
      have "ParseBinOpRHS (Suc k) p (expr_of lhs) g = Some (Some (expr_of lhs), g)"
        using True by (simp add: Let_def)
      then show ?thesis
        using chain True wl by (intro exI [of _ lhs] exI [of _ "[]"] exI [of _ items] exI [of _ g]) simp
    next
      case False
      let ?q = "GetTokPrecedence g"
      from False p0 have q0: "0 \<le> ?q" by simp
      note q = GetTokPrecedence_nonneg [OF q0]
      let ?Op = "char_of (CurTok g)"
      have "items \<noteq> []"
      proof
        assume "items = []"
        with chain have "g' = g" by simp
        with fin q0 show False by simp
      qed
      then obtain x items1 where it: "items = x # items1" by (cases items) auto
      obtain Op e where x: "x = (Op, e)" by (cases x)
      from chain obtain g1 where Op: "Op = ?Op"
        and prim: "ParsePrimary n (getNextToken g) = Some (Some e, g1)"
        and chain1: "operand_chain n g1 items1 = Some g'"
        unfolding it x by (auto split: if_splits option.splits)
      from fuel it have nk: "n \<le> k" and fuel1: "n + length items1 < k" by simp_all
      have primk: "ParsePrimary k (getNextToken g) = Some (Some e, g1)"
        using nk prim by (rule ParsePrimary_fuel_mono)
      have tb1: "BinopPrecedence g1 = BinopPrecedence g"
        using ParsePrimary_BinopPrecedence [OF prim] by (simp add: BinopPrecedence_getNextToken)
      have head: "operand_chain n g [(Op, e)] = Some g1"
        using q(1) Op prim by simp
      show ?thesis
      proof (cases "?q < GetTokPrecedence g1")
        case True
        from Suc [rule_format, of g1 items1 g' "?q + 1" "Leaf e"] chain1 fin fuel1 q0
        obtain t1 taken1 rest1 mid1
          where r1: "ParseBinOpRHS k (?q + 1) e g1 = Some (Some (expr_of t1), mid1)"
            and s1: "items1 = taken1 @ rest1"
            and c1: "operand_chain n g1 taken1 = Some mid1" "operand_chain n mid1 rest1 = Some g'"
            and e1: "GetTokPrecedence mid1 < ?q + 1"
            and f1: "first_operand t1 = e" "rest_operands t1 = taken1"
            and w1: "wellprec ?pr t1"
            and b1: "\<forall>o'\<in>set (map fst taken1). ?q + 1 \<le> ?pr o'"
          by (auto simp: tb1)
        let ?lhs' = "Node ?Op lhs t1"
        have tbm: "BinopPrecedence mid1 = BinopPrecedence g"
          using operand_chain_BinopPrecedence [OF c1(1)] tb1 by simp
        have wl': "wellprec (prec_of (BinopPrecedence mid1)) ?lhs'"
          using wl w1 bl b1 q(2) f1(2) by (auto simp: tbm node_ops_def)
        have bl': "\<forall>o'\<in>set (node_ops ?lhs'). GetTokPrecedence mid1 \<le> prec_of (BinopPrecedence mid1) o'"
          using bl b1 e1 q(2) f1(2) by (auto simp: tbm node_ops_def)
        have fuel2: "n + length rest1 < k" using fuel1 s1 by simp
        from Suc [rule_format, OF c1(2) fin fuel2 p0 wl' bl' [rule_format]]
        obtain t taken2 rest mid
          where r2: "ParseBinOpRHS k p (expr_of ?lhs') mid1 = Some (Some (expr_of t), mid)"
            and s2: "rest1 = taken2 @ rest"
            and c2: "operand_chain n mid1 taken2 = Some mid" "operand_chain n mid rest = Some g'"
            and e2: "GetTokPrecedence mid < p"
            and f2: "first_operand t = first_operand ?lhs'" "rest_operands t = rest_operands ?lhs' @ taken2"
            and w2: "wellprec ?pr t"
            and b2: "\<forall>o'\<in>set (map fst taken2). p \<le> ?pr o'"
          by (auto simp: tbm)
        have run: "ParseBinOpRHS (Suc k) p (expr_of lhs) g = Some (Some (expr_of t), mid)"
          using False True primk r1 r2 by (simp add: Let_def)
        have tk: "operand_chain n g ((Op, e) # taken1 @ taken2) = Some mid"
          using head c1(1) c2(1) operand_chain_append [of n g "[(Op, e)]" "taken1 @ taken2"]
          by (simp add: operand_chain_append)
        have bt: "\<forall>o'\<in>set (map fst ((Op, e) # taken1 @ taken2)). p \<le> ?pr o'"
          using b1 b2 q(2) False Op by auto
        show ?thesis
          using run tk c2(2) e2 f2 w2 bt f1 Op
          by (intro exI [of _ t] exI [of _ "(Op, e) # taken1 @ taken2"] exI [of _ rest] exI [of _ mid])
            (simp add: it x s1 s2)
      next
        case nlt: False
        let ?lhs' = "Node ?Op lhs (Leaf e)"
        have wl': "wellprec (prec_of (BinopPrecedence g1)) ?lhs'"
          using wl bl q(2) by (auto simp: tb1)
        have bl': "\<forall>o'\<in>set (node_ops ?lhs'). GetTokPrecedence g1 \<le> prec_of (BinopPrecedence g1) o'"
          using bl nlt q(2) by (auto simp: tb1)
        from Suc [rule_format, OF chain1 fin fuel1 p0 wl' bl' [rule_format]]
        obtain t taken2 rest mid
          where r2: "ParseBinOpRHS k p (expr_of ?lhs') g1 = Some (Some (expr_of t), mid)"
            and s2: "items1 = taken2 @ rest"
            and c2: "operand_chain n g1 taken2 = Some mid" "operand_chain n mid rest = Some g'"
            and e2: "GetTokPrecedence mid < p"
            and f2: "first_operand t = first_operand ?lhs'" "rest_operands t = rest_operands ?lhs' @ taken2"
            and w2: "wellprec ?pr t"
            and b2: "\<forall>o'\<in>set (map fst taken2). p \<le> ?pr o'"
          by (auto simp: tb1)
        have run: "ParseBinOpRHS (Suc k) p (expr_of lhs) g = Some (Some (expr_of t), mid)"
          using False nlt primk r2 by (simp add: Let_def)
        have tk: "operand_chain n g ((Op, e) # taken2) = Some mid"
          using head c2(1) operand_chain_append [of n g "[(Op, e)]" taken2] by simp
        have bt: "\<forall>o'\<in>set (map fst ((Op, e) # taken2)). p \<le> ?pr o'"
          using b2 q(2) False Op by auto
        show ?thesis
          using run tk c2(2) e2 f2 w2 bt Op
          by (intro exI [of _ t] exI [of _ "(Op, e) # taken2"] exI [of _ rest] exI [of _ mid])
            (simp add: it x s2)
      qed
    qed
  qed
qed

lemma append_Cons_eq_split:
  "xs @ a # ys = xs' @ a' # ys' \<Longrightarrow> length xs < length xs' \<Longrightarrow> a \<in> set xs' \<and> a' \<in> set ys"
proof (induction xs arbitrary: xs')
  case Nil
  then show ?case by (cases xs') auto
next
  case (Cons x xs)
  then show ?case by (cases xs') auto
qed

lemma wellprec_unique:
  "wellprec pr t \<Longrightarrow> wellprec pr t' \<Longrightarrow> first_operand t = first_operand t' \<Longrightarrow>
     rest_operands t = rest_operands t' \<Longrightarrow> t = t'"
proof (induction t arbitrary: t')
  case (Leaf e)
  then show ?case by (cases t') auto
next
  case (Node Op l r)
  from Node.prems(4) obtain Op' l' r' where t': "t' = Node Op' l' r'"
    by (cases t') auto
  let ?xs = "rest_operands l" and ?xs' = "rest_operands l'"
  have eq: "?xs @ (Op, first_operand r) # rest_operands r
      = ?xs' @ (Op', first_operand r') # rest_operands r'"
    using Node.prems(4) t' by simp
  have len: "length ?xs = length ?xs'"
  proof (rule ccontr)
    assume "length ?xs \<noteq> length ?xs'"
    then consider "length ?xs < length ?xs'" | "length ?xs' < length ?xs" by linarith
    then show False
    proof cases
      case 1
      from append_Cons_eq_split [OF eq 1]
      have "Op \<in> set (node_ops l')" "Op' \<in> set (node_ops r)"
        by (force simp: node_ops_def)+
      with Node.prems(1,2) t' have "pr Op' \<le> pr Op" "pr Op < pr Op'" by auto
      then show False by simp
    next
      case 2
      from append_Cons_eq_split [OF eq [symmetric] 2]
      have "Op' \<in> set (node_ops l)" "Op \<in> set (node_ops r')"
        by (force simp: node_ops_def)+
      with Node.prems(1,2) t' have "pr Op \<le> pr Op'" "pr Op' < pr Op" by auto
      then show False by simp
    qed
  qed
  with eq have parts: "?xs = ?xs'" "Op = Op'" "first_operand r = first_operand r'"
      "rest_operands r = rest_operands r'"
    by auto
  have "l = l'"
    using Node.prems t' parts by (intro Node.IH(1)) auto
  moreover have "r = r'"
    using Node.prems t' parts by (intro Node.IH(2)) auto
  ultimately show ?case using parts t' by simp
qed

declare ParseExpression.simps [simp del] ParsePrimary.simps [simp del]
  ParseParenExpr.simps [simp del] ParseIdentifierExpr.simps [simp del]
  ParseCallArgs.simps [simp del] ParseBinOpRHS.simps [simp del]

text \<open>
  Claim C1. Let the input be a primary expression \<open>e0\<close> followed by any number of
  operators, each with a primary expression, and then a token that is not an operator of
  the table. Then \<^verbatim>\<open>ParseExpression\<close> returns (for every bound that covers the primaries
  and the length of the chain) the expression of an operator tree over exactly these
  operands and operators, in their order, that respects the precedences of the table:
  tighter operators sit deeper, and operators of equal precedence associate to the left.
  There is only one such tree. For the table of \<^verbatim>\<open>main\<close>, \<^verbatim>\<open>1+2*3\<close> is parsed as
  \<^verbatim>\<open>1+(2*3)\<close>, \<^verbatim>\<open>(1+2)*3\<close> as \<^verbatim>\<open>(1+2)*3\<close>, and \<^verbatim>\<open>1-2-3\<close> as \<^verbatim>\<open>(1-2)-3\<close>.
\<close>

theorem ParseExpression_precedence:
  assumes "ParsePrimary n g = Some (Some e0, g1)"
    and "operand_chain n g1 items = Some g'"
    and "GetTokPrecedence g' < 0"
  shows "\<exists>t. (\<forall>m\<ge>n + length items + 2. ParseExpression m g = Some (Some (expr_of t), g'))
     \<and> first_operand t = e0 \<and> rest_operands t = items
     \<and> wellprec (prec_of (BinopPrecedence g)) t
     \<and> (\<forall>t'. first_operand t' = e0 \<and> rest_operands t' = items
            \<and> wellprec (prec_of (BinopPrecedence g)) t' \<longrightarrow> t' = t)"
proof -
  let ?k = "n + length items + 1"
  have tb: "BinopPrecedence g1 = BinopPrecedence g"
    using ParsePrimary_BinopPrecedence [OF assms(1)] .
  have "n \<le> ?k" by simp
  then have prim: "ParsePrimary ?k g = Some (Some e0, g1)"
    using assms(1) by (rule ParsePrimary_fuel_mono)
  have fuel: "n + length items < ?k" by simp
  from climb [rule_format, OF assms(2,3) fuel, of 0 "Leaf e0"]
  have "\<exists>t taken rest mid.
        ParseBinOpRHS ?k 0 e0 g1 = Some (Some (expr_of t), mid)
        \<and> items = taken @ rest
        \<and> operand_chain n g1 taken = Some mid \<and> operand_chain n mid rest = Some g'
        \<and> GetTokPrecedence mid < 0
        \<and> first_operand t = e0 \<and> rest_operands t = taken
        \<and> wellprec (prec_of (BinopPrecedence g)) t
        \<and> (\<forall>o'\<in>set (map fst taken). 0 \<le> prec_of (BinopPrecedence g) o')"
    by (simp add: tb)
  then obtain t taken rest mid
    where r: "ParseBinOpRHS ?k 0 e0 g1 = Some (Some (expr_of t), mid)"
      and s: "items = taken @ rest"
      and c: "operand_chain n g1 taken = Some mid" "operand_chain n mid rest = Some g'"
      and e: "GetTokPrecedence mid < 0"
      and f: "first_operand t = e0" "rest_operands t = taken"
      and w: "wellprec (prec_of (BinopPrecedence g)) t"
    by (elim exE conjE) (rule that; assumption)
  have "rest = []"
  proof (cases rest)
    case Nil
    then show ?thesis .
  next
    case (Cons x xs)
    with c(2) e show ?thesis by (cases x) (auto split: if_splits)
  qed
  with c(2) s have "mid = g'" "taken = items" by simp_all
  with r prim have "ParseExpression (Suc ?k) g = Some (Some (expr_of t), g')"
    by (simp add: ParseExpression.simps)
  then have "ParseExpression (n + length items + 2) g = Some (Some (expr_of t), g')"
    by simp
  then have run: "\<forall>m\<ge>n + length items + 2. ParseExpression m g = Some (Some (expr_of t), g')"
    by (auto intro: ParseExpression_fuel_mono)
  have ro: "rest_operands t = items"
    using f(2) \<open>taken = items\<close> by simp
  have uniq: "\<forall>t'. first_operand t' = e0 \<and> rest_operands t' = items
            \<and> wellprec (prec_of (BinopPrecedence g)) t' \<longrightarrow> t' = t"
  proof (intro allI impI)
    fix t'
    assume a: "first_operand t' = e0 \<and> rest_operands t' = items
            \<and> wellprec (prec_of (BinopPrecedence g)) t'"
    show "t' = t"
    proof (rule wellprec_unique)
      show "wellprec (prec_of (BinopPrecedence g)) t'" using a by simp
      show "wellprec (prec_of (BinopPrecedence g)) t" by (rule w)
      show "first_operand t' = first_operand t" using a f(1) by simp
      show "rest_operands t' = rest_operands t" using a ro by simp
    qed
  qed
  show ?thesis
  proof (intro exI [of _ t] conjI)
    show "\<forall>m\<ge>n + length items + 2. ParseExpression m g = Some (Some (expr_of t), g')"
      by (rule run)
    show "first_operand t = e0" by (rule f(1))
    show "rest_operands t = items" by (rule ro)
    show "wellprec (prec_of (BinopPrecedence g)) t" by (rule w)
    show "\<forall>t'. first_operand t' = e0 \<and> rest_operands t' = items
            \<and> wellprec (prec_of (BinopPrecedence g)) t' \<longrightarrow> t' = t" by (rule uniq)
  qed
qed

theorem ParseExpression_precedence_witness:
  "map_option fst (ParseExpression 5 (main_state ''1+2*3''))
     = Some (Some (BinaryExprAST CHR ''+'' (NumberExprAST (Finite 1))
         (BinaryExprAST CHR ''*'' (NumberExprAST (Finite 2)) (NumberExprAST (Finite 3)))))
   \<and> map_option fst (ParseExpression 10 (main_state ''(1+2)*3''))
     = Some (Some (BinaryExprAST CHR ''*''
         (BinaryExprAST CHR ''+'' (NumberExprAST (Finite 1)) (NumberExprAST (Finite 2))) (NumberExprAST (Finite 3))))
   \<and> map_option fst (ParseExpression 5 (main_state ''1-2-3''))
     = Some (Some (BinaryExprAST CHR ''-''
         (BinaryExprAST CHR ''-'' (NumberExprAST (Finite 1)) (NumberExprAST (Finite 2))) (NumberExprAST (Finite 3))))"
proof -
  let ?g = "main_state ''1+2*3''"
  let ?items = "[(CHR ''+'', NumberExprAST (Finite 2)), (CHR ''*'', NumberExprAST (Finite 3))]"
  let ?t0 = "Node CHR ''+'' (Leaf (NumberExprAST (Finite 1))) (Node CHR ''*'' (Leaf (NumberExprAST (Finite 2))) (Leaf (NumberExprAST (Finite 3))))"
  have "map_option fst (ParsePrimary 1 ?g) = Some (Some (NumberExprAST (Finite 1)))"
    by code_simp
  then obtain g1 where h1: "ParsePrimary 1 ?g = Some (Some (NumberExprAST (Finite 1)), g1)"
    by (cases "ParsePrimary 1 ?g") auto
  then have g1: "g1 = snd (the (ParsePrimary 1 ?g))" by simp
  have "map_option GetTokPrecedence (operand_chain 1 (snd (the (ParsePrimary 1 ?g))) ?items) = Some (- 1)"
    by code_simp
  then obtain g' where h2: "operand_chain 1 g1 ?items = Some g'" and h3: "GetTokPrecedence g' < 0"
    unfolding g1 by (cases "operand_chain 1 (snd (the (ParsePrimary 1 ?g))) ?items") auto
  have tb: "BinopPrecedence ?g
      = [CHR ''<'' \<mapsto> 10, CHR ''+'' \<mapsto> 20, CHR ''-'' \<mapsto> 20, CHR ''*'' \<mapsto> 40]"
    by (simp add: main_state_def BinopPrecedence_getNextToken main_BinopPrecedence_def startup_def)
  from ParseExpression_precedence [OF h1 h2 h3]
  obtain t where r: "\<forall>m\<ge>1 + length ?items + 2. ParseExpression m ?g = Some (Some (expr_of t), g')"
    and u: "\<forall>t'. first_operand t' = NumberExprAST (Finite 1) \<and> rest_operands t' = ?items
            \<and> wellprec (prec_of (BinopPrecedence ?g)) t' \<longrightarrow> t' = t"
    by (elim exE conjE)
  have "first_operand ?t0 = NumberExprAST (Finite 1) \<and> rest_operands ?t0 = ?items
            \<and> wellprec (prec_of (BinopPrecedence ?g)) ?t0"
    by (simp add: tb prec_of_def)
  from u [rule_format, OF this] have "t = ?t0" by (rule sym)
  moreover have k: "1 + length ?items + 2 \<le> (5::nat)" by simp
  ultimately have 1: "map_option fst (ParseExpression 5 ?g)
     = Some (Some (BinaryExprAST CHR ''+'' (NumberExprAST (Finite 1))
         (BinaryExprAST CHR ''*'' (NumberExprAST (Finite 2)) (NumberExprAST (Finite 3)))))"
    using r [rule_format, OF k] by simp
  have 2: "map_option fst (ParseExpression 10 (main_state ''(1+2)*3''))
     = Some (Some (BinaryExprAST CHR ''*''
         (BinaryExprAST CHR ''+'' (NumberExprAST (Finite 1)) (NumberExprAST (Finite 2))) (NumberExprAST (Finite 3))))"
    by code_simp
  have 3: "map_option fst (ParseExpression 5 (main_state ''1-2-3''))
     = Some (Some (BinaryExprAST CHR ''-''
         (BinaryExprAST CHR ''-'' (NumberExprAST (Finite 1)) (NumberExprAST (Finite 2))) (NumberExprAST (Finite 3))))"
    by code_simp
  from 1 2 3 show ?thesis by (intro conjI)
qed

end
